theory Spec2Isabelle
  imports Complex_Main
begin

section \<open>Python values used by \<^verbatim>\<open>ui_explorer.py\<close>\<close>

text \<open>
  A Python \<^verbatim>\<open>str\<close> is modelled as a \<^typ>\<open>string\<close>; a \<^typ>\<open>char\<close> stands for a code point
  below 256. \<^verbatim>\<open>str.strip()\<close> without arguments removes the characters for which
  \<^verbatim>\<open>str.isspace\<close> holds; below 256 these are 0x09-0x0D, 0x1C-0x20, 0x85 and 0xA0.
\<close>

definition py_isspace :: "char \<Rightarrow> bool" where
  "py_isspace c =
     (let n = (of_char c :: nat)
      in (9 \<le> n \<and> n \<le> 13) \<or> (28 \<le> n \<and> n \<le> 32) \<or> n = 133 \<or> n = 160)"

definition py_strip :: "string \<Rightarrow> string" where
  "py_strip s = rev (dropWhile py_isspace (rev (dropWhile py_isspace s)))"

text \<open>\<^verbatim>\<open>s.split('\n')\<close> and \<^verbatim>\<open>'\n'.join(ls)\<close>.\<close>

fun py_split_nl :: "string \<Rightarrow> string list" where
  "py_split_nl [] = [[]]"
| "py_split_nl (c # cs) =
     (if c = CHR 0x0A then [] # py_split_nl cs
      else (case py_split_nl cs of [] \<Rightarrow> [[c]] | line # lines \<Rightarrow> (c # line) # lines))"

fun py_join_nl :: "string list \<Rightarrow> string" where
  "py_join_nl [] = []"
| "py_join_nl [l] = l"
| "py_join_nl (l # m # ls) = l @ CHR 0x0A # py_join_nl (m # ls)"

text \<open>\<^verbatim>\<open>str(n)\<close> for an integer, as the f-strings format depths, indices and clock readings.\<close>

definition digit_char :: "nat \<Rightarrow> char" where
  "digit_char d = char_of (48 + d)"

function py_str_nat :: "nat \<Rightarrow> string" where
  "py_str_nat n = (if n < 10 then [digit_char n] else py_str_nat (n div 10) @ [digit_char (n mod 10)])"
  by pat_completeness auto
termination
  by (relation "measure id") auto

declare py_str_nat.simps [simp del]

definition py_str_int :: "int \<Rightarrow> string" where
  "py_str_int i = (if i < 0 then CHR ''-'' # py_str_nat (nat (- i)) else py_str_nat (nat i))"

text \<open>
  The value \<^verbatim>\<open>json.loads\<close> returns: \<^verbatim>\<open>None\<close>, a bool, an int, a float, a str, a list or a
  dict with string keys (kept as its items; a key is looked up with \<^const>\<open>map_of\<close>).
\<close>

datatype json =
    JNull
  | JBool bool
  | JInt int
  | JFloat real
  | JStr string
  | JList "json list"
  | JDict "(string \<times> json) list"

text \<open>Python truthiness (\<^verbatim>\<open>if x:\<close>, \<^verbatim>\<open>not x\<close>) of such a value.\<close>

fun truthy :: "json \<Rightarrow> bool" where
  "truthy JNull = False"
| "truthy (JBool b) = b"
| "truthy (JInt i) = (i \<noteq> 0)"
| "truthy (JFloat r) = (r \<noteq> 0)"
| "truthy (JStr s) = (s \<noteq> [])"
| "truthy (JList xs) = (xs \<noteq> [])"
| "truthy (JDict kvs) = (kvs \<noteq> [])"

text \<open>\<^verbatim>\<open>d.get(k, default)\<close> on a dict.\<close>

definition dict_get :: "(string \<times> json) list \<Rightarrow> string \<Rightarrow> json \<Rightarrow> json" where
  "dict_get d k dflt = (case map_of d k of Some v \<Rightarrow> v | None \<Rightarrow> dflt)"

text \<open>The exceptions the explorer's own code can raise on a decoded snapshot.\<close>

datatype py_error = AttributeError | TypeError

text \<open>
  \<^verbatim>\<open>v.strip()\<close>: only a str has the method; on any other JSON value the attribute lookup
  raises.
\<close>

fun strip_value :: "json \<Rightarrow> py_error + string" where
  "strip_value (JStr s) = Inr (py_strip s)"
| "strip_value _ = Inl AttributeError"

text \<open>
  \<^verbatim>\<open>f"{v}"\<close>: a str is inserted as it is; the text of any other value is the built-in
  \<^verbatim>\<open>format\<close>'s business and is taken as the parameter \<open>fmt\<close>.
\<close>

fun format_value :: "(json \<Rightarrow> string) \<Rightarrow> json \<Rightarrow> string" where
  "format_value fmt (JStr s) = s"
| "format_value fmt v = fmt v"

section \<open>Elements and their identifiers\<close>

text \<open>
  The dict \<^verbatim>\<open>element_info\<close> built in \<^verbatim>\<open>find_clickable_elements\<close> (lines 71-78), and the
  same dict once the key \<^verbatim>\<open>'identifier'\<close> has been added (line 82); the keys are prefixed with \<open>e_\<close>.
\<close>

record element_info =
  e_text :: json
  e_accessibilityText :: json
  e_resource_id :: json
  e_bounds :: json
  e_class :: json
  e_path :: string

record element = element_info +
  e_identifier :: string

text \<open>\<^verbatim>\<open>element_info['identifier'] = identifier\<close> (line 82).\<close>

definition with_identifier :: "element_info \<Rightarrow> string \<Rightarrow> element" where
  "with_identifier element_info identifier' =
     \<lparr> e_text = e_text element_info,
       e_accessibilityText = e_accessibilityText element_info,
       e_resource_id = e_resource_id element_info,
       e_bounds = e_bounds element_info,
       e_class = e_class element_info,
       e_path = e_path element_info,
       e_identifier = identifier' \<rparr>"

text \<open>\<^verbatim>\<open>_create_identifier\<close> (lines 99-113). The three \<^verbatim>\<open>strip\<close> calls run before the tests.\<close>

definition create_identifier ::
  "(json \<Rightarrow> string) \<Rightarrow> 'a element_info_scheme \<Rightarrow> py_error + string" where
  "create_identifier fmt element =
     (case strip_value (e_text element) of Inl err \<Rightarrow> Inl err | Inr text \<Rightarrow>
      case strip_value (e_accessibilityText element) of Inl err \<Rightarrow> Inl err | Inr acc_text \<Rightarrow>
      case strip_value (e_resource_id element) of Inl err \<Rightarrow> Inl err | Inr resource_id \<Rightarrow>
        Inr (if text \<noteq> [] then ''text:'' @ text
             else if acc_text \<noteq> [] then ''acc:'' @ acc_text
             else if resource_id \<noteq> [] then ''id:'' @ resource_id
             else ''bounds:'' @ format_value fmt (e_bounds element)))"

section \<open>The snapshot parser\<close>

text \<open>The dict literal of lines 71-78, from a node's attributes and its path.\<close>

definition element_info_of :: "(string \<times> json) list \<Rightarrow> string \<Rightarrow> element_info" where
  "element_info_of attrs path' =
     \<lparr> e_text = dict_get attrs ''text'' (JStr ''''),
       e_accessibilityText = dict_get attrs ''accessibilityText'' (JStr ''''),
       e_resource_id = dict_get attrs ''resource-id'' (JStr ''''),
       e_bounds = dict_get attrs ''bounds'' (JStr ''''),
       e_class = dict_get attrs ''class'' (JStr ''''),
       e_path = path' \<rparr>"

text \<open>
  \<^verbatim>\<open>find_clickable_elements\<close> (lines 57-97). \<open>traverse\<close> is the inner function; the list
  \<^verbatim>\<open>clickable\<close> it appends to is threaded through as an accumulator, and an exception
  abandons the whole call. \<open>traverse_seq\<close> is the \<^verbatim>\<open>for i, x in enumerate(...)\<close> loop over
  the children of a dict (segment \<^verbatim>\<open>child\<close>) or the items of a list (segment \<^verbatim>\<open>item\<close>).
  Iterating a str or a dict yields strs, on which \<open>traverse\<close> does nothing; iterating
  \<^verbatim>\<open>None\<close>, a bool or a number raises \<^verbatim>\<open>TypeError\<close>.
\<close>

lemma size_map_of_json:
  "map_of kvs k = Some v \<Longrightarrow> size v < Suc (size_list (size_prod (\<lambda>_. 0) size) kvs)"
  by (induction kvs) (auto split: if_splits)

function traverse ::
    "(json \<Rightarrow> string) \<Rightarrow> string set \<Rightarrow> json \<Rightarrow> string \<Rightarrow> element list \<Rightarrow> py_error + element list"
  and traverse_seq ::
    "(json \<Rightarrow> string) \<Rightarrow> string set \<Rightarrow> string \<Rightarrow> json list \<Rightarrow> nat \<Rightarrow> string \<Rightarrow> element list
       \<Rightarrow> py_error + element list"
where
  "traverse fmt visited (JDict node) path clickable =
     (case dict_get node ''attributes'' (JDict []) of
        JDict attrs \<Rightarrow>
          (case
             (if dict_get attrs ''clickable'' JNull = JStr ''true'' then
                (let element_info = element_info_of attrs path
                 in case create_identifier fmt element_info of
                      Inl err \<Rightarrow> Inl err
                    | Inr identifier' \<Rightarrow>
                        Inr (if identifier' \<notin> visited
                             then clickable @ [with_identifier element_info identifier']
                             else clickable))
              else Inr clickable)
           of Inl err \<Rightarrow> Inl err
            | Inr clickable' \<Rightarrow>
                (case map_of node ''children'' of
                   None \<Rightarrow> Inr clickable'
                 | Some (JList children) \<Rightarrow>
                     traverse_seq fmt visited ''child'' children 0 path clickable'
                 | Some (JStr _) \<Rightarrow> Inr clickable'
                 | Some (JDict _) \<Rightarrow> Inr clickable'
                 | Some _ \<Rightarrow> Inl TypeError))
      | _ \<Rightarrow> Inl AttributeError)"
| "traverse fmt visited (JList node) path clickable =
     traverse_seq fmt visited ''item'' node 0 path clickable"
| "traverse fmt visited JNull path clickable = Inr clickable"
| "traverse fmt visited (JBool b) path clickable = Inr clickable"
| "traverse fmt visited (JInt i) path clickable = Inr clickable"
| "traverse fmt visited (JFloat r) path clickable = Inr clickable"
| "traverse fmt visited (JStr s) path clickable = Inr clickable"
| "traverse_seq fmt visited seg [] i path clickable = Inr clickable"
| "traverse_seq fmt visited seg (x # xs) i path clickable =
     (case traverse fmt visited x (path @ ''/'' @ seg @ ''['' @ py_str_nat i @ '']'') clickable of
        Inl err \<Rightarrow> Inl err
      | Inr clickable' \<Rightarrow> traverse_seq fmt visited seg xs (Suc i) path clickable')"
  by pat_completeness auto
termination
  by (relation "measure (\<lambda>a. case a of
          Inl (fmt, visited, node, path, clickable) \<Rightarrow> 2 * size node
        | Inr (fmt, visited, seg, xs, i, path, clickable) \<Rightarrow> Suc (2 * size_list size xs))")
     (auto dest: size_map_of_json simp: dict_get_def)

definition find_clickable_elements ::
  "(json \<Rightarrow> string) \<Rightarrow> string set \<Rightarrow> json \<Rightarrow> py_error + element list" where
  "find_clickable_elements fmt visited hierarchy =
     (if \<not> truthy hierarchy then Inr [] else traverse fmt visited hierarchy [] [])"

section \<open>The automation backend\<close>

text \<open>
  What lies outside the repository is a parameter. \<open>'w\<close> is the state of the world (device,
  file system, clock). \<^verbatim>\<open>subprocess.run\<close> either raises (a timeout, a missing executable,
  a failing \<^verbatim>\<open>os.remove\<close> in the same \<^verbatim>\<open>try\<close> block) or completes with a return code and
  its standard output.
\<close>

datatype proc_result = Raised | Completed int string

text \<open>\<^verbatim>\<open>datetime.now()\<close>, in the three renderings the explorer asks for.\<close>

record stamp =
  compact :: string   \<comment> \<open>\<^verbatim>\<open>strftime('%Y%m%d_%H%M%S')\<close>\<close>
  human :: string     \<comment> \<open>\<^verbatim>\<open>strftime('%Y-%m-%d %H:%M:%S')\<close>\<close>
  iso :: string       \<comment> \<open>\<^verbatim>\<open>isoformat()\<close>\<close>

record 'w env =
  maestro_hierarchy :: "'w \<Rightarrow> proc_result \<times> 'w"
    \<comment> \<open>\<^verbatim>\<open>subprocess.run([maestro, 'hierarchy'], timeout=30)\<close>\<close>
  maestro_test :: "string \<Rightarrow> string \<Rightarrow> 'w \<Rightarrow> proc_result \<times> 'w"
    \<comment> \<open>write the flow file (name, content), \<^verbatim>\<open>subprocess.run([maestro, 'test', name])\<close>, remove it\<close>
  adb_screencap :: "string \<Rightarrow> 'w \<Rightarrow> 'w"
    \<comment> \<open>\<^verbatim>\<open>adb exec-out screencap -p\<close> into the named file; its failures are swallowed\<close>
  time_time :: "'w \<Rightarrow> int \<times> 'w"
    \<comment> \<open>\<^verbatim>\<open>int(time.time())\<close>\<close>
  time_sleep :: "nat \<Rightarrow> 'w \<Rightarrow> 'w"
  datetime_now :: "'w \<Rightarrow> stamp \<times> 'w"
  json_loads :: "string \<Rightarrow> json option"
    \<comment> \<open>\<^verbatim>\<open>json.loads\<close>; \<open>None\<close> when it raises\<close>
  py_format :: "json \<Rightarrow> string"
    \<comment> \<open>the text an f-string gives a value that is not a str\<close>

text \<open>
  \<^verbatim>\<open>get_hierarchy\<close> (lines 25-55). Every failure is caught and gives Python's \<^verbatim>\<open>None\<close>,
  which is \<^const>\<open>JNull\<close> here, as is the decoded JSON text \<^verbatim>\<open>null\<close>.
\<close>

definition starts_brace :: "string \<Rightarrow> bool" where
  "starts_brace line = (case py_strip line of [] \<Rightarrow> False | c # _ \<Rightarrow> c = CHR ''{'')"

definition json_start :: "string list \<Rightarrow> nat" where
  "json_start lines =
     (if list_ex starts_brace lines then length (takeWhile (\<lambda>line. \<not> starts_brace line) lines)
      else 0)"

text \<open>Lines 42-50: the output from its first line that starts with a brace.\<close>

definition json_text_of :: "string \<Rightarrow> string" where
  "json_text_of output =
     (let lines = py_split_nl output
      in py_join_nl (drop (json_start lines) lines))"

definition get_hierarchy :: "'w env \<Rightarrow> 'w \<Rightarrow> json \<times> 'w" where
  "get_hierarchy env w =
     (case maestro_hierarchy env w of
        (Raised, w') \<Rightarrow> (JNull, w')
      | (Completed returncode output, w') \<Rightarrow>
          (if returncode = 0 then
             (case json_loads env (json_text_of output) of
                None \<Rightarrow> (JNull, w')
              | Some hierarchy \<Rightarrow> (hierarchy, w'))
           else (JNull, w')))"

section \<open>The explorer's state\<close>

record screen_state =
  depth :: int
  timestamp :: string
  screenshot :: string
  elements :: "element list"

record flow_record =
  from_screen :: string
  action :: string
  to_screen :: string
  flow_depth :: int
  flow_element :: element

text \<open>
  The calls of \<^verbatim>\<open>tap_element\<close> (depth, identifier, result) and of \<^verbatim>\<open>go_back\<close> (depth of the
  loop that calls it), in the order they are made.
\<close>

datatype event = Tap int string bool | Back int

text \<open>
  The fields of a \<^verbatim>\<open>UIExplorer\<close> object (lines 15-23). \<open>events\<close> is not a field of the
  Python object: it is a ghost log of the activation and back-navigation calls, written by
  nothing but the two places that make those calls, and read by no definition.
\<close>

record explorer =
  app_id :: string
  platform :: string
  screenshots_dir :: string
  visited_elements :: "string set"
  screen_states :: "screen_state list"
  discovered_flows :: "flow_record list"
  events :: "event list"

definition init_explorer :: "string \<Rightarrow> string \<Rightarrow> string \<Rightarrow> explorer" where
  "init_explorer app_id' platform' dir =
     \<lparr> app_id = app_id', platform = platform', screenshots_dir = dir,
       visited_elements = {}, screen_states = [], discovered_flows = [], events = [] \<rparr>"

section \<open>The action driver\<close>

text \<open>\<^verbatim>\<open>take_screenshot\<close> (lines 115-130); its result is never used.\<close>

definition take_screenshot :: "'w env \<Rightarrow> explorer \<Rightarrow> string \<Rightarrow> 'w \<Rightarrow> 'w" where
  "take_screenshot env self name w =
     (let filename = screenshots_dir self @ ''/'' @ name @ ''.png''
      in if platform self = ''android'' then adb_screencap env filename w else w)"

text \<open>\<^verbatim>\<open>tap_element\<close> (lines 132-183): the command chosen (lines 139-150), then the call.\<close>

definition yaml_cmd :: "(json \<Rightarrow> string) \<Rightarrow> element \<Rightarrow> string option" where
  \<open>yaml_cmd fmt element =
     (let text = e_text element;
          acc_text = e_accessibilityText element;
          resource_id = e_resource_id element
      in if truthy text then Some (''- tapOn: "'' @ format_value fmt text @ ''"'')
         else if truthy acc_text then Some (''- tapOn: "'' @ format_value fmt acc_text @ ''"'')
         else if truthy resource_id
           then Some (''- tapOn:\<newline>    id: '' @ format_value fmt resource_id)
         else if truthy (e_bounds element)
           then Some ''- tapOn:\<newline>    point: "50%,50%"''
         else None)\<close>

definition tap_element :: "'w env \<Rightarrow> explorer \<Rightarrow> element \<Rightarrow> 'w \<Rightarrow> bool \<times> 'w" where
  "tap_element env self element w =
     (case yaml_cmd (py_format env) element of
        None \<Rightarrow> (False, w)
      | Some cmd \<Rightarrow>
          (case time_time env w of (t, w1) \<Rightarrow>
             (let temp_flow = ''/tmp/maestro_tap_'' @ py_str_int t @ ''.yaml'';
                  flow_content = ''appId: '' @ app_id self @ ''\<newline>---\<newline>'' @ cmd @ ''\<newline>''
              in case maestro_test env temp_flow flow_content w1 of
                   (Raised, w2) \<Rightarrow> (False, w2)
                 | (Completed returncode output, w2) \<Rightarrow> (returncode = 0, w2))))"

text \<open>\<^verbatim>\<open>go_back\<close> (lines 185-212); the \<^verbatim>\<open>sleep(1)\<close> is inside the \<^verbatim>\<open>try\<close>.\<close>

definition go_back :: "'w env \<Rightarrow> explorer \<Rightarrow> 'w \<Rightarrow> 'w" where
  "go_back env self w =
     (case time_time env w of (t, w1) \<Rightarrow>
        (let temp_flow = ''/tmp/maestro_back_'' @ py_str_int t @ ''.yaml'';
             flow_content = ''appId: '' @ app_id self @ ''\<newline>---\<newline>- back\<newline>''
         in case maestro_test env temp_flow flow_content w1 of
              (Raised, w2) \<Rightarrow> w2
            | (Completed returncode output, w2) \<Rightarrow> time_sleep env 1 w2))"

section \<open>The explorer\<close>

text \<open>
  \<^verbatim>\<open>explore_screen\<close> (lines 214-283), in the three blocks its comments name.

  Lines 227-242, once the hierarchy has been obtained: the screenshot, the clickable
  elements and the stored screen state. An exception raised while the elements are
  collected leaves the method before the state is stored.
\<close>

definition capture_screen ::
  "'w env \<Rightarrow> int \<Rightarrow> json \<Rightarrow> explorer \<times> 'w
     \<Rightarrow> py_error + (string \<times> element list \<times> explorer \<times> 'w)" where
  "capture_screen env depth' hierarchy sw =
     (case sw of (self, w) \<Rightarrow>
      case time_time env w of (t, w1) \<Rightarrow>
        (let screenshot_name = ''screen_depth'' @ py_str_int depth' @ ''_'' @ py_str_int t;
             w2 = take_screenshot env self screenshot_name w1
         in case find_clickable_elements (py_format env) (visited_elements self) hierarchy of
              Inl err \<Rightarrow> Inl err
            | Inr clickable \<Rightarrow>
                (case datetime_now env w2 of (now, w3) \<Rightarrow>
                   (let screen_state = \<lparr> depth = depth', timestamp = iso now,
                                          screenshot = screenshot_name, elements = clickable \<rparr>
                    in Inr (screenshot_name, clickable,
                            self\<lparr> screen_states := screen_states self @ [screen_state] \<rparr>,
                            w3)))))"

text \<open>
  Lines 253-274, for an element whose identifier is not yet visited: mark it, tap it and,
  on success, wait, take the second screenshot and record the flow.
\<close>

definition try_element ::
  "'w env \<Rightarrow> int \<Rightarrow> string \<Rightarrow> element \<Rightarrow> explorer \<times> 'w \<Rightarrow> bool \<times> explorer \<times> 'w" where
  "try_element env depth' screenshot_name element sw =
     (case sw of (self, w) \<Rightarrow>
        (let identifier' = e_identifier element;
             self1 = self\<lparr> visited_elements := insert identifier' (visited_elements self) \<rparr>
         in case tap_element env self1 element w of (success, w1) \<Rightarrow>
              (let self2 = self1\<lparr> events := events self1 @ [Tap depth' identifier' success] \<rparr>
               in if success then
                    (let w2 = time_sleep env 2 w1
                     in case time_time env w2 of (t, w3) \<Rightarrow>
                          (let after_screenshot =
                                 ''after_tap_''
                                 @ take 30 (map (\<lambda>c. if c = CHR '':'' then CHR ''_'' else c) identifier')
                                 @ ''_'' @ py_str_int t;
                               w4 = take_screenshot env self2 after_screenshot w3;
                               flow_record = \<lparr> from_screen = screenshot_name,
                                               action = identifier',
                                               to_screen = after_screenshot,
                                               flow_depth = depth',
                                               flow_element = element \<rparr>
                           in (True,
                               self2\<lparr> discovered_flows := discovered_flows self2 @ [flow_record] \<rparr>,
                               w4)))
                  else (False, self2, w1))))"

text \<open>Lines 280-283: go back, then \<^verbatim>\<open>time.sleep(1)\<close>.\<close>

definition backtrack :: "'w env \<Rightarrow> int \<Rightarrow> explorer \<times> 'w \<Rightarrow> explorer \<times> 'w" where
  "backtrack env depth' sw =
     (case sw of (self, w) \<Rightarrow>
        (self\<lparr> events := events self @ [Back depth'] \<rparr>, time_sleep env 1 (go_back env self w)))"

text \<open>
  The method and its \<^verbatim>\<open>for\<close> loop over \<^verbatim>\<open>clickable\<close> (line 245). The loop skips an element
  whose identifier has been visited in the meantime (line 248), recurses only below the
  maximum depth (line 277) and goes back after every successful tap.
\<close>

function explore_screen ::
    "'w env \<Rightarrow> int \<Rightarrow> int \<Rightarrow> explorer \<times> 'w \<Rightarrow> py_error + explorer \<times> 'w"
  and explore_elements ::
    "'w env \<Rightarrow> int \<Rightarrow> int \<Rightarrow> string \<Rightarrow> element list \<Rightarrow> explorer \<times> 'w \<Rightarrow> py_error + explorer \<times> 'w"
where
  "explore_screen env depth' max_depth sw =
     (if depth' > max_depth then Inr sw
      else case get_hierarchy env (snd sw) of (hierarchy, w1) \<Rightarrow>
        if \<not> truthy hierarchy then Inr (fst sw, w1)
        else case capture_screen env depth' hierarchy (fst sw, w1) of
               Inl err \<Rightarrow> Inl err
             | Inr (screenshot_name, clickable, sw') \<Rightarrow>
                 explore_elements env depth' max_depth screenshot_name clickable sw')"
| "explore_elements env depth' max_depth screenshot_name [] sw = Inr sw"
| "explore_elements env depth' max_depth screenshot_name (element # rest) sw =
     (if e_identifier element \<in> visited_elements (fst sw)
      then explore_elements env depth' max_depth screenshot_name rest sw
      else case try_element env depth' screenshot_name element sw of (success, sw1) \<Rightarrow>
        if success then
          (case (if depth' < max_depth then explore_screen env (depth' + 1) max_depth sw1
                 else Inr sw1) of
             Inl err \<Rightarrow> Inl err
           | Inr sw2 \<Rightarrow>
               explore_elements env depth' max_depth screenshot_name rest (backtrack env depth' sw2))
        else explore_elements env depth' max_depth screenshot_name rest sw1)"
  by pat_completeness auto
termination
  by (relation "inv_image (less_than <*lex*> less_than)
        (\<lambda>a. case a of
           Inl (env, d, k, sw) \<Rightarrow> (2 * nat (k + 1 - d) + 1, 0)
         | Inr (env, d, k, sn, els, sw) \<Rightarrow> (2 * nat (k + 1 - d), length els))")
     auto

declare explore_screen.simps [simp del]

section \<open>The script generator\<close>

text \<open>
  \<^verbatim>\<open>generate_test_files\<close> (lines 285-358). \<open>flows_by_screen\<close> is the \<^verbatim>\<open>defaultdict(list)\<close>
  of lines 292-295: its keys stay in the order of their first insertion, each with its
  flows in recorded order.
\<close>

fun add_flow ::
  "(string \<times> flow_record list) list \<Rightarrow> flow_record \<Rightarrow> (string \<times> flow_record list) list" where
  "add_flow [] flow = [(from_screen flow, [flow])]"
| "add_flow ((screen, flows) # groups) flow =
     (if screen = from_screen flow then (screen, flows @ [flow]) # groups
      else (screen, flows) # add_flow groups flow)"

definition flows_by_screen :: "flow_record list \<Rightarrow> (string \<times> flow_record list) list" where
  "flows_by_screen flows = foldl add_flow [] flows"

text \<open>The f-string of lines 298-308; \<open>generated\<close> is the formatted clock reading of line 301.\<close>

definition test_header :: "explorer \<Rightarrow> string \<Rightarrow> string" where
  \<open>test_header self generated =
     ''appId: '' @ app_id self @ ''\<newline>''
     @ ''---\<newline>''
     @ ''# Auto-generated UI Exploration Tests\<newline>''
     @ ''# Generated: '' @ generated @ ''\<newline>''
     @ ''# Total screens explored: '' @ py_str_nat (length (screen_states self)) @ ''\<newline>''
     @ ''# Total interactions discovered: '' @ py_str_nat (length (discovered_flows self))
     @ ''\<newline>''
     @ ''\<newline>''
     @ ''- waitForAnimationToEnd\<newline>''
     @ ''- takeScreenshot: "exploration_start"\<newline>''
     @ ''\<newline>''\<close>

text \<open>Lines 314-332: the steps written for one flow.\<close>

definition flow_steps :: "(json \<Rightarrow> string) \<Rightarrow> flow_record \<Rightarrow> string" where
  \<open>flow_steps fmt flow =
     (let element = flow_element flow;
          text = e_text element;
          acc_text = e_accessibilityText element;
          resource_id = e_resource_id element
      in ''# Test: '' @ action flow @ ''\<newline>''
         @ (if truthy text then ''- tapOn: "'' @ format_value fmt text @ ''"\<newline>''
            else if truthy acc_text then ''- tapOn: "'' @ format_value fmt acc_text @ ''"\<newline>''
            else if truthy resource_id
              then ''- tapOn:\<newline>    id: '' @ format_value fmt resource_id @ ''\<newline>''
            else [])
         @ ''- waitForAnimationToEnd\<newline>''
         @ ''- takeScreenshot: "'' @ to_screen flow @ ''"\<newline>''
         @ ''- back\<newline>''
         @ ''- waitForAnimationToEnd\<newline>\<newline>'')\<close>

text \<open>Lines 310-332: the section of one origin screen.\<close>

definition screen_section :: "(json \<Rightarrow> string) \<Rightarrow> string \<times> flow_record list \<Rightarrow> string" where
  "screen_section fmt entry =
     (case entry of (screen, flows) \<Rightarrow>
        ''\<newline># Screen: '' @ screen @ ''\<newline>''
        @ ''# Discovered '' @ py_str_nat (length flows) @ '' interactions\<newline>\<newline>''
        @ concat (map (flow_steps fmt) flows))"

definition test_content :: "(json \<Rightarrow> string) \<Rightarrow> explorer \<Rightarrow> string \<Rightarrow> string" where
  "test_content fmt self generated =
     test_header self generated
     @ concat (map (screen_section fmt) (flows_by_screen (discovered_flows self)))"

text \<open>
  The dict \<^verbatim>\<open>report\<close> of lines 342-349, before \<^verbatim>\<open>json.dump\<close> writes it.
  \<^verbatim>\<open>list(self.visited_elements)\<close> lists a set in an order Python does not specify; the
  set is kept.
\<close>

record report =
  report_timestamp :: string
  total_screens :: nat
  total_interactions :: nat
  report_visited_elements :: "string set"
  flows :: "flow_record list"
  report_screenshots_dir :: string

text \<open>The two files written: their names and what goes into them.\<close>

record generated_files =
  test_filename :: string
  test_file :: string
  report_filename :: string
  report_file :: report

definition generate_test_files :: "'w env \<Rightarrow> explorer \<Rightarrow> 'w \<Rightarrow> generated_files \<times> 'w" where
  "generate_test_files env self w =
     (case datetime_now env w of (now1, w1) \<Rightarrow>
      case datetime_now env w1 of (now2, w2) \<Rightarrow>
      case datetime_now env w2 of (now3, w3) \<Rightarrow>
      case datetime_now env w3 of (now4, w4) \<Rightarrow>
        (\<lparr> test_filename = ''generated_exploration_test_'' @ compact now2 @ ''.yaml'',
           test_file = test_content (py_format env) self (human now1),
           report_filename = ''exploration_report_'' @ compact now4 @ ''.json'',
           report_file = \<lparr> report_timestamp = iso now3,
                           total_screens = length (screen_states self),
                           total_interactions = length (discovered_flows self),
                           report_visited_elements = visited_elements self,
                           flows = discovered_flows self,
                           report_screenshots_dir = screenshots_dir self \<rparr> \<rparr>,
         w4))"

text \<open>
  \<^verbatim>\<open>run_exploration\<close> (lines 360-389): the clock is read before and after the exploration,
  which starts at depth 0; the files are generated from what the exploration left. An
  exception of the exploration leaves the method (only \<^verbatim>\<open>KeyboardInterrupt\<close>, which is not
  modelled, is caught).
\<close>

definition run_exploration ::
  "'w env \<Rightarrow> int \<Rightarrow> explorer \<times> 'w \<Rightarrow> py_error + (generated_files \<times> explorer \<times> 'w)" where
  "run_exploration env max_depth sw =
     (case time_time env (snd sw) of (start_time, w1) \<Rightarrow>
      case explore_screen env 0 max_depth (fst sw, w1) of
        Inl err \<Rightarrow> Inl err
      | Inr (self, w2) \<Rightarrow>
          (case time_time env w2 of (end_time, w3) \<Rightarrow>
           case generate_test_files env self w3 of (files, w4) \<Rightarrow>
             Inr (files, self, w4)))"

section \<open>Notions the properties are stated with\<close>

text \<open>
  The identifiers of the activation attempts of a log, those of the attempts that
  succeeded, and the number of back navigations.
\<close>

fun tapped :: "event list \<Rightarrow> string list" where
  "tapped [] = []"
| "tapped (Tap d i b # evs) = i # tapped evs"
| "tapped (Back d # evs) = tapped evs"

fun succeeded :: "event list \<Rightarrow> string list" where
  "succeeded [] = []"
| "succeeded (Tap d i b # evs) = (if b then i # succeeded evs else succeeded evs)"
| "succeeded (Back d # evs) = succeeded evs"

fun backs :: "event list \<Rightarrow> nat" where
  "backs [] = 0"
| "backs (Tap d i b # evs) = backs evs"
| "backs (Back d # evs) = Suc (backs evs)"

fun event_depth :: "event \<Rightarrow> int" where
  "event_depth (Tap d i b) = d"
| "event_depth (Back d) = d"

text \<open>
  \<open>pairing base cur evs\<close> reads a log of calls from a point where the element loop of
  depth \<open>cur\<close> is in control, in a run that started at depth \<open>base\<close>. A tap at depth \<open>d\<close>
  is accepted only while depth \<open>d\<close> is in control; a successful one hands control to
  depth \<open>d + 1\<close>, a failed one leaves it where it is. A back navigation at depth \<open>d\<close> is
  accepted only while depth \<open>d + 1\<close> is in control, and returns control to depth \<open>d\<close>.
  The result is the depth in control at the end, or \<open>None\<close> when a call is out of place.
\<close>

fun pairing :: "int \<Rightarrow> int \<Rightarrow> event list \<Rightarrow> int option" where
  "pairing base cur [] = Some cur"
| "pairing base cur (Tap d i b # evs) =
     (if d = cur then pairing base (if b then cur + 1 else cur) evs else None)"
| "pairing base cur (Back d # evs) =
     (if d + 1 = cur \<and> base \<le> d then pairing base d evs else None)"

text \<open>
  The snapshot tree as the specification describes it: the dict nodes of a snapshot with
  their paths, in pre-order (a node before its children, children from left to right).
\<close>

function subnodes :: "json \<Rightarrow> string \<Rightarrow> (string \<times> (string \<times> json) list) list"
  and subnodes_seq ::
    "string \<Rightarrow> json list \<Rightarrow> nat \<Rightarrow> string \<Rightarrow> (string \<times> (string \<times> json) list) list"
where
  "subnodes (JDict node) path' =
     (path', node) #
     (case map_of node ''children'' of
        Some (JList children) \<Rightarrow> subnodes_seq ''child'' children 0 path'
      | _ \<Rightarrow> [])"
| "subnodes (JList items) path' = subnodes_seq ''item'' items 0 path'"
| "subnodes JNull path' = []"
| "subnodes (JBool b) path' = []"
| "subnodes (JInt i) path' = []"
| "subnodes (JFloat r) path' = []"
| "subnodes (JStr s) path' = []"
| "subnodes_seq seg [] i path' = []"
| "subnodes_seq seg (x # xs) i path' =
     subnodes x (path' @ ''/'' @ seg @ ''['' @ py_str_nat i @ '']'')
     @ subnodes_seq seg xs (Suc i) path'"
  by pat_completeness auto
termination
  by (relation "measure (\<lambda>a. case a of
          Inl (node, path') \<Rightarrow> 2 * size node
        | Inr (seg, xs, i, path') \<Rightarrow> Suc (2 * size_list size xs))")
     (auto dest: size_map_of_json)

text \<open>The attributes of a node, and whether its \<^verbatim>\<open>clickable\<close> attribute is the text \<^verbatim>\<open>true\<close>.\<close>

definition attributes_of :: "(string \<times> json) list \<Rightarrow> (string \<times> json) list" where
  "attributes_of node =
     (case dict_get node ''attributes'' (JDict []) of JDict attrs \<Rightarrow> attrs | _ \<Rightarrow> [])"

definition is_clickable :: "string \<times> (string \<times> json) list \<Rightarrow> bool" where
  "is_clickable pn = (dict_get (attributes_of (snd pn)) ''clickable'' JNull = JStr ''true'')"

text \<open>
  The element of a clickable node: its attributes, its path and the identifier computed
  from them (the empty text stands in where the identifier cannot be computed).
\<close>

definition node_element :: "(json \<Rightarrow> string) \<Rightarrow> string \<times> (string \<times> json) list \<Rightarrow> element" where
  "node_element fmt pn =
     (let element_info = element_info_of (attributes_of (snd pn)) (fst pn)
      in with_identifier element_info
           (case create_identifier fmt element_info of
              Inr identifier' \<Rightarrow> identifier'
            | Inl err \<Rightarrow> []))"

definition interactable :: "(json \<Rightarrow> string) \<Rightarrow> json \<Rightarrow> element list" where
  "interactable fmt hierarchy =
     map (node_element fmt) (filter is_clickable (subnodes hierarchy []))"

text \<open>
  Snapshot capture fails: the backend call raises (an error, a timeout), returns a
  non-zero code, or prints what \<^verbatim>\<open>json.loads\<close> cannot decode.
\<close>

definition capture_fails :: "'w env \<Rightarrow> 'w \<Rightarrow> bool" where
  "capture_fails env w =
     (case fst (maestro_hierarchy env w) of
        Raised \<Rightarrow> True
      | Completed returncode output \<Rightarrow>
          returncode \<noteq> 0 \<or> json_loads env (json_text_of output) = None)"

text \<open>An element all of whose descriptors are the empty string.\<close>

definition all_empty :: "element \<Rightarrow> bool" where
  "all_empty element =
     (e_text element = JStr [] \<and> e_accessibilityText element = JStr []
      \<and> e_resource_id element = JStr [] \<and> e_bounds element = JStr [])"

text \<open>
  The calls that reach the backend. \<open>recording env\<close> is the backend \<open>env\<close> whose world also
  keeps every flow handed to \<^verbatim>\<open>maestro test\<close>, in order: the name of the flow file, its
  content and the outcome. It answers every call as \<open>env\<close> does.
\<close>

type_synonym flow_call = "string \<times> string \<times> proc_result"

definition recording :: "'w env \<Rightarrow> ('w \<times> flow_call list) env" where
  "recording env =
     \<lparr> maestro_hierarchy =
         (\<lambda>wc. case maestro_hierarchy env (fst wc) of (outcome, w') \<Rightarrow> (outcome, (w', snd wc))),
       maestro_test =
         (\<lambda>name content wc.
            case maestro_test env name content (fst wc) of
              (outcome, w') \<Rightarrow> (outcome, (w', snd wc @ [(name, content, outcome)]))),
       adb_screencap = (\<lambda>name wc. (adb_screencap env name (fst wc), snd wc)),
       time_time = (\<lambda>wc. case time_time env (fst wc) of (t, w') \<Rightarrow> (t, (w', snd wc))),
       time_sleep = (\<lambda>n wc. (time_sleep env n (fst wc), snd wc)),
       datetime_now = (\<lambda>wc. case datetime_now env (fst wc) of (now, w') \<Rightarrow> (now, (w', snd wc))),
       json_loads = json_loads env,
       py_format = py_format env \<rparr>"

text \<open>
  What a call amounts to. \<open>go_back\<close> names its flow file \<^verbatim>\<open>/tmp/maestro_back_...\<close> and
  the last line of that flow is the command \<^verbatim>\<open>- back\<close>; \<open>tap_element\<close> names its own
  \<^verbatim>\<open>/tmp/maestro_tap_...\<close>, and a tap has succeeded when the command returned the
  code 0. The same for the entries of the log of calls.
\<close>

datatype backend_step = Activated | Failed | Navigated_back

definition flow_step :: "flow_call \<Rightarrow> backend_step" where
  "flow_step call =
     (case call of (name, content, outcome) \<Rightarrow>
        if take 18 name = ''/tmp/maestro_back_''
           \<and> drop (length content - 7) content = ''- back\<newline>''
        then Navigated_back
        else (case outcome of
                Raised \<Rightarrow> Failed
              | Completed returncode output \<Rightarrow> if returncode = 0 then Activated else Failed))"

fun event_step :: "event \<Rightarrow> backend_step" where
  "event_step (Tap d i b) = (if b then Activated else Failed)"
| "event_step (Back d) = Navigated_back"

text \<open>
  \<open>nesting n steps\<close> reads the steps while \<open>n\<close> successful activations await their back
  navigation: an activation adds one, a failed one changes nothing, a back navigation
  answers the latest activation still waiting. The result is the number left waiting at
  the end, or \<open>None\<close> when a back navigation answers no activation.
\<close>

fun nesting :: "nat \<Rightarrow> backend_step list \<Rightarrow> nat option" where
  "nesting n [] = Some n"
| "nesting n (Activated # steps) = nesting (Suc n) steps"
| "nesting n (Failed # steps) = nesting n steps"
| "nesting n (Navigated_back # steps) = (case n of 0 \<Rightarrow> None | Suc m \<Rightarrow> nesting m steps)"

section \<open>Sample backends\<close>

text \<open>
  A backend whose world is a step counter: every call advances it and the clock reads
  it. The hierarchy command always prints \<open>banner\<close> followed by the snapshot text,
  \<open>loads\<close> decodes it, and a flow succeeds exactly when \<open>ok\<close> holds of its content.
\<close>

definition sample_stamp :: "nat \<Rightarrow> stamp" where
  "sample_stamp n = \<lparr> compact = py_str_nat n, human = ''t'' @ py_str_nat n, iso = ''T'' @ py_str_nat n \<rparr>"

definition sample_env :: "proc_result \<Rightarrow> (string \<Rightarrow> json option) \<Rightarrow> (string \<Rightarrow> bool) \<Rightarrow> nat env" where
  "sample_env hierarchy_result loads ok =
     \<lparr> maestro_hierarchy = (\<lambda>w. (hierarchy_result, Suc w)),
       maestro_test = (\<lambda>name content w. (Completed (if ok content then 0 else 1) [], Suc w)),
       adb_screencap = (\<lambda>name w. Suc w),
       time_time = (\<lambda>w. (int w, Suc w)),
       time_sleep = (\<lambda>n w. w + n),
       datetime_now = (\<lambda>w. (sample_stamp w, Suc w)),
       json_loads = loads,
       py_format = (\<lambda>v. ''?'') \<rparr>"

text \<open>A clickable node with the given text, accessibility text, resource id and bounds.\<close>

definition button :: "string \<Rightarrow> string \<Rightarrow> string \<Rightarrow> string \<Rightarrow> json" where
  "button t a r b =
     JDict [(''attributes'',
             JDict [(''clickable'', JStr ''true''), (''text'', JStr t),
                    (''accessibilityText'', JStr a), (''resource-id'', JStr r),
                    (''bounds'', JStr b), (''class'', JStr ''Button'')])]"

text \<open>A screen: a root node that is not clickable, with the given children.\<close>

definition screen_of :: "json list \<Rightarrow> json" where
  "screen_of children =
     JDict [(''attributes'', JDict [(''clickable'', JStr ''false'')]),
            (''children'', JList children)]"

text \<open>A decoder that knows one snapshot text.\<close>

definition loads_one :: "string \<Rightarrow> json \<Rightarrow> string \<Rightarrow> json option" where
  "loads_one known v s = (if s = known then Some v else None)"

text \<open>
  A whole run of a fresh explorer against a device that shows the same snapshot on every
  screen, from world 0.
\<close>

definition sample_device :: "json \<Rightarrow> (string \<Rightarrow> bool) \<Rightarrow> nat env" where
  "sample_device snapshot ok =
     sample_env (Completed 0 ''Running on emulator\<newline>{snapshot}'') (loads_one ''{snapshot}'' snapshot) ok"

text \<open>
  The flow file \<open>tap_element\<close> writes for an element with the given text, and the device
  on which every flow succeeds but that one.
\<close>

definition tap_flow :: "string \<Rightarrow> string" where
  \<open>tap_flow t = ''appId: com.whisker.android\<newline>---\<newline>- tapOn: "'' @ t @ ''"\<newline>''\<close>

definition all_but :: "string \<Rightarrow> string \<Rightarrow> bool" where
  "all_but t content = (content \<noteq> tap_flow t)"

definition sample_run ::
  "json \<Rightarrow> (string \<Rightarrow> bool) \<Rightarrow> int \<Rightarrow> py_error + (generated_files \<times> explorer \<times> nat)" where
  "sample_run snapshot ok k =
     run_exploration (sample_device snapshot ok) k
       (init_explorer ''com.whisker.android'' ''android'' ''shots'', 0)"

text \<open>
  A device that shows the snapshot \<open>first\<close> while its step counter is below \<open>n\<close> and the
  snapshot \<open>later\<close> from then on, and a clickable node whose text is the number 5.
\<close>

definition changing_device :: "nat \<Rightarrow> json \<Rightarrow> json \<Rightarrow> (string \<Rightarrow> bool) \<Rightarrow> nat env" where
  "changing_device n first later ok =
     (sample_env Raised
        (\<lambda>s. if s = ''{first}'' then Some first else if s = ''{later}'' then Some later else None)
        ok)
     \<lparr> maestro_hierarchy :=
         (\<lambda>w. (Completed 0 (if w < n then ''{first}'' else ''{later}''), Suc w)) \<rparr>"

definition numbered_node :: json where
  "numbered_node =
     JDict [(''attributes'', JDict [(''clickable'', JStr ''true''), (''text'', JInt 5)])]"

text \<open>
  A recording device whose first screen has the button \<open>A\<close> and whose later screens have
  the numbered node; the element the parser makes of the button; and the explorer once
  the first screen has been captured, in a run that starts in world 0.
\<close>

definition aborting_device :: "(nat \<times> flow_call list) env" where
  "aborting_device =
     recording (changing_device 2 (screen_of [button ''A'' [] [] []]) (screen_of [numbered_node])
                  (\<lambda>content. True))"

definition element_A :: element where
  "element_A =
     \<lparr> e_text = JStr ''A'', e_accessibilityText = JStr [], e_resource_id = JStr [],
       e_bounds = JStr [], e_class = JStr ''Button'', e_path = ''/child[0]'',
       e_identifier = ''text:A'' \<rparr>"

definition after_first_capture :: explorer where
  "after_first_capture =
     (init_explorer ''com.whisker.android'' ''android'' ''shots'')
     \<lparr> screen_states :=
         [\<lparr> depth = 0, timestamp = ''T4'', screenshot = ''screen_depth0_2'',
            elements = [element_A] \<rparr>] \<rparr>"

section \<open>What one block of the explorer does to its state\<close>

lemma capture_screen_result:
  assumes "capture_screen env d h (s, w) = Inr (sn, cl, s', w')"
  shows "find_clickable_elements (py_format env) (visited_elements s) h = Inr cl
       \<and> (\<exists>ts. s' = s\<lparr> screen_states := screen_states s
                         @ [\<lparr> depth = d, timestamp = ts, screenshot = sn, elements = cl \<rparr>] \<rparr>)"
  using assms
  by (auto simp: capture_screen_def Let_def split: prod.splits sum.splits)

lemma try_element_result:
  assumes "try_element env d sn e (s, w) = (b, s', w')"
  shows "b = fst (tap_element env (s\<lparr> visited_elements := insert (e_identifier e) (visited_elements s) \<rparr>) e w)
       \<and> (\<exists>ts. s' = s\<lparr> visited_elements := insert (e_identifier e) (visited_elements s),
                       events := events s @ [Tap d (e_identifier e) b],
                       discovered_flows :=
                         (if b then discovered_flows s
                                   @ [\<lparr> from_screen = sn, action = e_identifier e, to_screen = ts,
                                        flow_depth = d, flow_element = e \<rparr>]
                          else discovered_flows s) \<rparr>)"
  using assms
  by (auto simp: try_element_def Let_def split: prod.splits if_splits)

lemma backtrack_result:
  "fst (backtrack env d (s, w)) = s\<lparr> events := events s @ [Back d] \<rparr>"
  by (simp add: backtrack_def)

lemma explore_invariant:
  assumes cap: "\<And>d h s w sn cl s' w'. d0 \<le> d \<Longrightarrow> d \<le> k \<Longrightarrow> I d s
                  \<Longrightarrow> capture_screen env d h (s, w) = Inr (sn, cl, s', w') \<Longrightarrow> I d s'"
      and tr: "\<And>d sn e s w b s' w'. d0 \<le> d \<Longrightarrow> d \<le> k \<Longrightarrow> I d s
                  \<Longrightarrow> e_identifier e \<notin> visited_elements s
                  \<Longrightarrow> try_element env d sn e (s, w) = (b, s', w')
                  \<Longrightarrow> I (if b then d + 1 else d) s'"
      and bk: "\<And>d s. d0 \<le> d \<Longrightarrow> d \<le> k \<Longrightarrow> I (d + 1) s
                  \<Longrightarrow> I d (s\<lparr> events := events s @ [Back d] \<rparr>)"
  shows "explore_screen env d k sw = Inr sw' \<Longrightarrow> d0 \<le> d \<Longrightarrow> I d (fst sw) \<Longrightarrow> I d (fst sw')"
    and "explore_elements env d k sn els sw = Inr sw' \<Longrightarrow> d0 \<le> d \<Longrightarrow> d \<le> k \<Longrightarrow> I d (fst sw)
           \<Longrightarrow> I d (fst sw')"
  using cap tr bk
proof (induction env d k sw and env d k sn els sw arbitrary: sw' and sw'
       rule: explore_screen_explore_elements.induct)
  case (1 env depth' max_depth sw)
  note run = "1.prems"(1) and low = "1.prems"(2) and inv = "1.prems"(3)
   and cap = "1.prems"(4) and tr = "1.prems"(5) and bk = "1.prems"(6)
  show ?case
  proof (cases "depth' > max_depth")
    case True
    with run inv show ?thesis by (simp add: explore_screen.simps)
  next
    case shallow: False
    then have high: "depth' \<le> max_depth" by simp
    obtain h w1 where gh: "get_hierarchy env (snd sw) = (h, w1)"
      by (cases "get_hierarchy env (snd sw)")
    show ?thesis
    proof (cases "truthy h")
      case False
      with shallow gh run inv show ?thesis by (auto simp: explore_screen.simps)
    next
      case True
      from run shallow gh True obtain sn cl s1 w2
        where cs: "capture_screen env depth' h (fst sw, w1) = Inr (sn, cl, s1, w2)"
          and ee: "explore_elements env depth' max_depth sn cl (s1, w2) = Inr sw'"
        by (auto simp: explore_screen.simps split: sum.splits)
      from cap[OF low high inv cs] have "I depth' s1" .
      with "1.IH"[OF shallow gh[symmetric] _ cs refl refl ee low high _ cap tr bk] True
      show ?thesis by simp
    qed
  qed
next
  case (2 env depth' max_depth screenshot_name sw)
  then show ?case by simp
next
  case (3 env depth' max_depth screenshot_name element rest sw)
  note run = "3.prems"(1) and low = "3.prems"(2) and high = "3.prems"(3) and inv = "3.prems"(4)
   and cap = "3.prems"(5) and tr = "3.prems"(6) and bk = "3.prems"(7)
  show ?case
  proof (cases "e_identifier element \<in> visited_elements (fst sw)")
    case True
    with run have "explore_elements env depth' max_depth screenshot_name rest sw = Inr sw'"
      by simp
    from "3.IH"(1)[OF True this low high inv cap tr bk] show ?thesis .
  next
    case fresh: False
    obtain b s1 w1 where te: "try_element env depth' screenshot_name element sw = (b, s1, w1)"
      by (cases "try_element env depth' screenshot_name element sw") auto
    from tr[OF low high inv fresh] te have inv1: "I (if b then depth' + 1 else depth') s1"
      by (cases sw) auto
    show ?thesis
    proof (cases b)
      case False
      with run fresh te
      have "explore_elements env depth' max_depth screenshot_name rest (s1, w1) = Inr sw'"
        by simp
      from "3.IH"(4)[OF fresh te[symmetric] _ this low high _ cap tr bk] False inv1
      show ?thesis by simp
    next
      case True
      from low have low1: "d0 \<le> depth' + 1" by simp
      show ?thesis
      proof (cases "depth' < max_depth")
        case deeper: True
        from run fresh te \<open>b\<close> deeper obtain sw2
          where es: "explore_screen env (depth' + 1) max_depth (s1, w1) = Inr sw2"
            and ee: "explore_elements env depth' max_depth screenshot_name rest
                       (backtrack env depth' sw2) = Inr sw'"
          by (auto split: sum.splits)
        from "3.IH"(2)[OF fresh te[symmetric] \<open>b\<close> deeper es low1 _ cap tr bk] inv1 \<open>b\<close>
        have "I (depth' + 1) (fst sw2)" by simp
        with bk[OF low high] have "I depth' (fst (backtrack env depth' sw2))"
          by (cases sw2) (simp add: backtrack_result)
        from "3.IH"(3)[OF fresh te[symmetric] \<open>b\<close> _ ee low high this cap tr bk] deeper es
        show ?thesis by simp
      next
        case flat: False
        from run fresh te \<open>b\<close> flat
        have ee: "explore_elements env depth' max_depth screenshot_name rest
                       (backtrack env depth' (s1, w1)) = Inr sw'"
          by simp
        from bk[OF low high] inv1 \<open>b\<close> have "I depth' (fst (backtrack env depth' (s1, w1)))"
          by (simp add: backtrack_result)
        from "3.IH"(3)[OF fresh te[symmetric] \<open>b\<close> _ ee low high this cap tr bk] flat
        show ?thesis by simp
      qed
    qed
  qed
qed

section \<open>The parser against the pre-order list of clickable nodes\<close>

lemma visit_node:
  assumes "dict_get node ''attributes'' (JDict []) = JDict attrs"
      and "(if dict_get attrs ''clickable'' JNull = JStr ''true''
            then let element_info = element_info_of attrs p
                 in case create_identifier fmt element_info of
                      Inl err \<Rightarrow> Inl err
                    | Inr identifier' \<Rightarrow>
                        Inr (if identifier' \<notin> V
                             then acc @ [with_identifier element_info identifier']
                             else acc)
            else Inr acc) = Inr b"
  shows "b = acc @ filter (\<lambda>e. e_identifier e \<notin> V)
                     (map (node_element fmt) (filter is_clickable [(p, node)]))"
  using assms
  by (auto simp: is_clickable_def attributes_of_def node_element_def Let_def with_identifier_def
           split: sum.splits if_splits)

lemma traverse_spec:
  "traverse fmt V node p acc = Inr r \<Longrightarrow>
     r = acc @ filter (\<lambda>e. e_identifier e \<notin> V)
                 (map (node_element fmt) (filter is_clickable (subnodes node p)))"
  "traverse_seq fmt V seg xs i p acc = Inr r \<Longrightarrow>
     r = acc @ filter (\<lambda>e. e_identifier e \<notin> V)
                 (map (node_element fmt) (filter is_clickable (subnodes_seq seg xs i p)))"
proof (induction fmt V node p acc and fmt V seg xs i p acc arbitrary: r and r
       rule: traverse_traverse_seq.induct)
  case (1 fmt visited node path clickable)
  from "1.prems" obtain attrs
    where attrs: "dict_get node ''attributes'' (JDict []) = JDict attrs"
    by (cases "dict_get node ''attributes'' (JDict [])") simp_all
  let ?visit = "if dict_get attrs ''clickable'' JNull = JStr ''true''
            then let element_info = element_info_of attrs path
                 in case create_identifier fmt element_info of
                      Inl err \<Rightarrow> Inl err
                    | Inr identifier' \<Rightarrow>
                        Inr (if identifier' \<notin> visited
                             then clickable @ [with_identifier element_info identifier']
                             else clickable)
            else Inr clickable"
  from "1.prems" attrs obtain b where visit: "?visit = Inr b"
    by (cases ?visit) simp_all
  from "1.prems" attrs visit
  have rest: "(case map_of node ''children'' of
                 None \<Rightarrow> Inr b
               | Some (JList children) \<Rightarrow> traverse_seq fmt visited ''child'' children 0 path b
               | Some (JStr s) \<Rightarrow> Inr b
               | Some (JDict d) \<Rightarrow> Inr b
               | Some _ \<Rightarrow> Inl TypeError) = Inr r"
    by simp
  note here = visit_node[OF attrs visit]
  show ?case
  proof (cases "map_of node ''children''")
    case None
    with rest here show ?thesis by simp
  next
    case (Some c)
    show ?thesis
    proof (cases c)
      case (JList children)
      with rest Some have "traverse_seq fmt visited ''child'' children 0 path b = Inr r"
        by simp
      from "1.IH"[OF attrs visit Some JList this] here Some JList
      show ?thesis by simp
    qed (use rest Some here in simp_all)
  qed
next
  case (9 fmt visited seg x xs i path clickable)
  from "9.prems" obtain b
    where first: "traverse fmt visited x (path @ ''/'' @ seg @ ''['' @ py_str_nat i @ '']'') clickable
                    = Inr b"
      and rest: "traverse_seq fmt visited seg xs (Suc i) path b = Inr r"
    by (auto split: sum.splits)
  from "9.IH"(1)[OF first] "9.IH"(2)[OF first rest]
  show ?case by simp
qed simp_all

lemma find_clickable_elements_spec:
  assumes "find_clickable_elements fmt V hierarchy = Inr els" and "truthy hierarchy"
  shows "els = filter (\<lambda>e. e_identifier e \<notin> V) (interactable fmt hierarchy)"
  using assms traverse_spec(1)[of fmt V hierarchy "[]" "[]" els]
  by (simp add: find_clickable_elements_def interactable_def)

section \<open>Logs of calls and what a run adds to them\<close>

lemma tapped_append: "tapped (t @ u) = tapped t @ tapped u"
  by (induction t rule: tapped.induct) simp_all

lemma succeeded_append: "succeeded (t @ u) = succeeded t @ succeeded u"
  by (induction t rule: succeeded.induct) simp_all

lemma backs_append: "backs (t @ u) = backs t + backs u"
  by (induction t rule: backs.induct) simp_all

lemma succeeded_subset_tapped: "set (succeeded t) \<subseteq> set (tapped t)"
  by (induction t rule: succeeded.induct) auto

lemma distinct_succeeded: "distinct (tapped t) \<Longrightarrow> distinct (succeeded t)"
  using succeeded_subset_tapped by (induction t rule: succeeded.induct) auto

lemma pairing_append:
  "pairing base cur (t @ u) = (case pairing base cur t of None \<Rightarrow> None | Some c \<Rightarrow> pairing base c u)"
  by (induction base cur t rule: pairing.induct) simp_all

lemma pairing_counts:
  "pairing base cur t = Some c \<Longrightarrow> int (length (succeeded t)) + cur = int (backs t) + c"
  by (induction base cur t arbitrary: c rule: pairing.induct) (auto split: if_splits)

lemma explore_screen_once:
  assumes run: "explore_screen env d k (self, w) = Inr (self', w')"
  shows "\<exists>t fl. events self' = events self @ t
            \<and> discovered_flows self' = discovered_flows self @ fl
            \<and> distinct (tapped t)
            \<and> set (tapped t) \<inter> visited_elements self = {}
            \<and> visited_elements self' = visited_elements self \<union> set (tapped t)
            \<and> map action fl = succeeded t"
proof -
  let ?I = "\<lambda>(c::int) s. \<exists>t fl. events s = events self @ t
            \<and> discovered_flows s = discovered_flows self @ fl
            \<and> distinct (tapped t)
            \<and> set (tapped t) \<inter> visited_elements self = {}
            \<and> visited_elements s = visited_elements self \<union> set (tapped t)
            \<and> map action fl = succeeded t"
  have "?I d (fst (self', w'))"
  proof (rule explore_invariant(1)[where I = ?I and ?d0.0 = d and env = env, OF _ _ _ run])
    fix c h s w sn cl s' w'
    assume "?I c s" "capture_screen env c h (s, w) = Inr (sn, cl, s', w')"
    then show "?I c s'"
      by (auto dest!: capture_screen_result)
  next
    fix c sn e s w b s' w'
    assume inv: "?I c s" and fresh: "e_identifier e \<notin> visited_elements s"
       and te: "try_element env c sn e (s, w) = (b, s', w')"
    from inv obtain t fl where t: "events s = events self @ t"
       "discovered_flows s = discovered_flows self @ fl" "distinct (tapped t)"
       "set (tapped t) \<inter> visited_elements self = {}"
       "visited_elements s = visited_elements self \<union> set (tapped t)"
       "map action fl = succeeded t"
      by blast
    from try_element_result[OF te] obtain ts where
      s': "s' = s\<lparr> visited_elements := insert (e_identifier e) (visited_elements s),
                    events := events s @ [Tap c (e_identifier e) b],
                    discovered_flows :=
                      (if b then discovered_flows s
                                @ [\<lparr> from_screen = sn, action = e_identifier e, to_screen = ts,
                                     flow_depth = c, flow_element = e \<rparr>]
                       else discovered_flows s) \<rparr>"
      by blast
    let ?t = "t @ [Tap c (e_identifier e) b]"
    let ?fl = "if b then fl @ [\<lparr> from_screen = sn, action = e_identifier e, to_screen = ts,
                                     flow_depth = c, flow_element = e \<rparr>] else fl"
    have "events s' = events self @ ?t" using s' t by simp
    moreover have "discovered_flows s' = discovered_flows self @ ?fl" using s' t by simp
    moreover have "distinct (tapped ?t)" using t fresh by (simp add: tapped_append)
    moreover have "set (tapped ?t) \<inter> visited_elements self = {}"
      using t fresh by (auto simp: tapped_append)
    moreover have "visited_elements s' = visited_elements self \<union> set (tapped ?t)"
      using s' t by (auto simp: tapped_append)
    moreover have "map action ?fl = succeeded ?t" using t by (simp add: succeeded_append)
    ultimately show "?I (if b then c + 1 else c) s'" by blast
  next
    fix c s
    assume "?I (c + 1) s"
    then obtain t fl where t: "events s = events self @ t"
       "discovered_flows s = discovered_flows self @ fl" "distinct (tapped t)"
       "set (tapped t) \<inter> visited_elements self = {}"
       "visited_elements s = visited_elements self \<union> set (tapped t)"
       "map action fl = succeeded t"
      by blast
    let ?t = "t @ [Back c]"
    have "events (s\<lparr> events := events s @ [Back c] \<rparr>) = events self @ ?t" using t by simp
    moreover have "tapped ?t = tapped t" "succeeded ?t = succeeded t"
      by (simp_all add: tapped_append succeeded_append)
    ultimately show "?I c (s\<lparr> events := events s @ [Back c] \<rparr>)"
      using t by (intro exI[of _ ?t] exI[of _ fl]) simp
  next
    show "?I d (fst (self, w))" by simp
  qed simp
  then show ?thesis by simp
qed

lemma explore_screen_pairing:
  assumes run: "explore_screen env d k (self, w) = Inr (self', w')"
  shows "\<exists>t. events self' = events self @ t \<and> pairing d d t = Some d
            \<and> (\<forall>ev\<in>set t. d \<le> event_depth ev \<and> event_depth ev \<le> k)"
proof -
  let ?I = "\<lambda>(c::int) s. \<exists>t. events s = events self @ t \<and> pairing d d t = Some c
            \<and> (\<forall>ev\<in>set t. d \<le> event_depth ev \<and> event_depth ev \<le> k)"
  have "?I d (fst (self', w'))"
  proof (rule explore_invariant(1)[where I = ?I and ?d0.0 = d and env = env, OF _ _ _ run])
    fix c h s w sn cl s' w'
    assume "?I c s" "capture_screen env c h (s, w) = Inr (sn, cl, s', w')"
    then show "?I c s'"
      by (auto dest!: capture_screen_result)
  next
    fix c sn e s w b s' w'
    assume low: "d \<le> c" and high: "c \<le> k" and inv: "?I c s"
       and te: "try_element env c sn e (s, w) = (b, s', w')"
    from inv obtain t where t: "events s = events self @ t" "pairing d d t = Some c"
       "\<forall>ev\<in>set t. d \<le> event_depth ev \<and> event_depth ev \<le> k"
      by blast
    from try_element_result[OF te]
    have "events s' = events self @ (t @ [Tap c (e_identifier e) b])"
      using t by auto
    moreover have "pairing d d (t @ [Tap c (e_identifier e) b]) = Some (if b then c + 1 else c)"
      using t by (simp add: pairing_append)
    moreover have "\<forall>ev\<in>set (t @ [Tap c (e_identifier e) b]). d \<le> event_depth ev \<and> event_depth ev \<le> k"
      using t low high by auto
    ultimately show "?I (if b then c + 1 else c) s'" by blast
  next
    fix c s
    assume low: "d \<le> c" and high: "c \<le> k" and "?I (c + 1) s"
    then obtain t where t: "events s = events self @ t" "pairing d d t = Some (c + 1)"
       "\<forall>ev\<in>set t. d \<le> event_depth ev \<and> event_depth ev \<le> k"
      by blast
    have "events (s\<lparr> events := events s @ [Back c] \<rparr>) = events self @ (t @ [Back c])"
      using t by simp
    moreover have "pairing d d (t @ [Back c]) = Some c"
      using t low by (simp add: pairing_append)
    moreover have "\<forall>ev\<in>set (t @ [Back c]). d \<le> event_depth ev \<and> event_depth ev \<le> k"
      using t low high by auto
    ultimately show "?I c (s\<lparr> events := events s @ [Back c] \<rparr>)" by blast
  next
    show "?I d (fst (self, w))" by simp
  qed simp
  then show ?thesis by simp
qed

lemma explore_screen_depths:
  assumes run: "explore_screen env d k (self, w) = Inr (self', w')"
      and old: "\<forall>ss\<in>set (screen_states self). lo \<le> depth ss \<and> depth ss \<le> k"
      and lo: "lo \<le> d"
  shows "\<forall>ss\<in>set (screen_states self'). lo \<le> depth ss \<and> depth ss \<le> k"
proof -
  let ?I = "\<lambda>(c::int) s. \<forall>ss\<in>set (screen_states s). lo \<le> depth ss \<and> depth ss \<le> k"
  have "?I d (fst (self', w'))"
  proof (rule explore_invariant(1)[where I = ?I and ?d0.0 = d and env = env, OF _ _ _ run])
    fix c h s w sn cl s' w'
    assume "d \<le> c" "c \<le> k" "?I c s" "capture_screen env c h (s, w) = Inr (sn, cl, s', w')"
    with lo show "?I c s'"
      by (auto dest!: capture_screen_result)
  next
    fix c sn e s w b s' w'
    assume "?I c s" "try_element env c sn e (s, w) = (b, s', w')"
    then show "?I (if b then c + 1 else c) s'"
      by (auto dest!: try_element_result)
  qed (use old in simp_all)
  then show ?thesis by simp
qed

section \<open>The element loop without descent, and small facts\<close>

lemma py_strip_Nil: "py_strip [] = []"
  by (simp add: py_strip_def)


lemma get_hierarchy_fails:
  "capture_fails env w \<Longrightarrow> fst (get_hierarchy env w) = JNull"
  by (auto simp: capture_fails_def get_hierarchy_def split: prod.splits proc_result.splits)

lemma py_str_nat_0: "py_str_nat 0 = ''0''"
  by code_simp

lemma interactable_falsy: "\<not> truthy h \<Longrightarrow> interactable fmt h = []"
  by (cases h) (simp_all add: interactable_def is_clickable_def attributes_of_def dict_get_def)

lemma find_clickable_elements_interactable:
  assumes "find_clickable_elements fmt V h = Inr els"
  shows "els = filter (\<lambda>e. e_identifier e \<notin> V) (interactable fmt h)"
proof (cases "truthy h")
  case True
  with assms show ?thesis by (rule find_clickable_elements_spec)
next
  case False
  with assms show ?thesis by (simp add: find_clickable_elements_def interactable_falsy)
qed

lemma all_empty_identifier:
  "all_empty e \<Longrightarrow> create_identifier fmt e = Inr ''bounds:''"
  by (simp add: all_empty_def create_identifier_def py_strip_Nil)

lemma all_empty_node_element:
  assumes "all_empty (node_element fmt pn)"
  shows "e_identifier (node_element fmt pn) = ''bounds:''"
proof -
  let ?info = "element_info_of (attributes_of (snd pn)) (fst pn)"
  from assms have "e_text ?info = JStr []" "e_accessibilityText ?info = JStr []"
    "e_resource_id ?info = JStr []" "e_bounds ?info = JStr []"
    by (simp_all add: all_empty_def node_element_def with_identifier_def Let_def)
  then have "create_identifier fmt ?info = Inr ''bounds:''"
    by (simp add: create_identifier_def py_strip_Nil)
  then show ?thesis by (simp add: node_element_def with_identifier_def Let_def)
qed

lemma all_empty_yaml_cmd: "all_empty e \<Longrightarrow> yaml_cmd fmt e = None"
  by (simp add: all_empty_def yaml_cmd_def)

lemma tap_element_needs_cmd:
  "fst (tap_element env self e w) \<Longrightarrow> yaml_cmd (py_format env) e \<noteq> None"
  by (auto simp: tap_element_def split: option.splits)

section \<open>Element identifiers (C2)\<close>

text \<open>
  C2, as stated, fails: for a display text with surrounding whitespace the identifier is
  built from the stripped text, not from the display text itself. The text \<open>'' OK ''\<close> is
  not empty after stripping, yet the identifier is \<open>''text:OK''\<close>.
\<close>

theorem create_identifier_unstripped_counterexample:
  "py_strip '' OK '' \<noteq> []
   \<and> create_identifier (\<lambda>v. [])
         \<lparr> e_text = JStr '' OK '', e_accessibilityText = JStr [], e_resource_id = JStr [],
           e_bounds = JStr [], e_class = JStr [], e_path = [] \<rparr>
       = Inr ''text:OK''
   \<and> create_identifier (\<lambda>v. [])
         \<lparr> e_text = JStr '' OK '', e_accessibilityText = JStr [], e_resource_id = JStr [],
           e_bounds = JStr [], e_class = JStr [], e_path = [] \<rparr>
       \<noteq> Inr (''text:'' @ '' OK '')"
  by (simp add: create_identifier_def py_strip_def py_isspace_def)

text \<open>
  C2, amended: on an element whose three labels are strings, \<open>create_identifier\<close> returns
  (it raises nothing) \<open>text:\<close> followed by the stripped display text when that is not
  empty; otherwise \<open>acc:\<close> followed by the stripped accessibility label when that is not
  empty; otherwise \<open>id:\<close> followed by the stripped resource id when that is not empty;
  otherwise \<open>bounds:\<close> followed by the bounds as they are. The element with every
  descriptor empty gets \<open>bounds:\<close>. Two elements with the same display text, not empty
  after stripping, get the same identifier whatever their other fields are.
\<close>

theorem create_identifier_priority:
  "create_identifier fmt
      \<lparr> e_text = JStr t, e_accessibilityText = JStr a, e_resource_id = JStr r,
        e_bounds = JStr b, e_class = c, e_path = p, \<dots> = z \<rparr>
     = Inr (if py_strip t \<noteq> [] then ''text:'' @ py_strip t
            else if py_strip a \<noteq> [] then ''acc:'' @ py_strip a
            else if py_strip r \<noteq> [] then ''id:'' @ py_strip r
            else ''bounds:'' @ b)
   \<and> create_identifier fmt
      \<lparr> e_text = JStr [], e_accessibilityText = JStr [], e_resource_id = JStr [],
        e_bounds = JStr [], e_class = c, e_path = p, \<dots> = z \<rparr>
     = Inr ''bounds:''
   \<and> (py_strip t \<noteq> [] \<longrightarrow>
        create_identifier fmt
          \<lparr> e_text = JStr t, e_accessibilityText = JStr a, e_resource_id = JStr r,
            e_bounds = bd, e_class = c, e_path = p, \<dots> = z \<rparr>
        = create_identifier fmt
          \<lparr> e_text = JStr t, e_accessibilityText = JStr a', e_resource_id = JStr r',
            e_bounds = bd', e_class = c', e_path = p', \<dots> = z' \<rparr>)"
  by (simp add: create_identifier_def py_strip_Nil)

text \<open>
  C2, witness: two elements that share the display text \<open>''Save ''\<close> and nothing else.
\<close>

theorem create_identifier_priority_witness:
  "py_strip ''Save '' \<noteq> []
   \<and> create_identifier (\<lambda>v. [])
          \<lparr> e_text = JStr ''Save '', e_accessibilityText = JStr ''save button'',
            e_resource_id = JStr ''id/save'', e_bounds = JStr ''[0,0][1,1]'',
            e_class = JStr ''Button'', e_path = ''/child[0]'' \<rparr>
        = create_identifier (\<lambda>v. [])
          \<lparr> e_text = JStr ''Save '', e_accessibilityText = JStr [],
            e_resource_id = JStr [], e_bounds = JNull,
            e_class = JStr ''View'', e_path = ''/child[7]'' \<rparr>"
proof -
  have nonempty: "py_strip ''Save '' \<noteq> []"
    by (simp add: py_strip_def py_isspace_def)
  with create_identifier_priority
    [where fmt = "\<lambda>v. []" and t = "''Save ''" and a = "''save button''" and r = "''id/save''"
       and b = "[]" and bd = "JStr ''[0,0][1,1]''" and c = "JStr ''Button''"
       and p = "''/child[0]''" and z = "()" and a' = "[]" and r' = "[]" and bd' = JNull
       and c' = "JStr ''View''" and p' = "''/child[7]''" and z' = "()"]
  show ?thesis by blast
qed

section \<open>Generating twice (C6)\<close>

text \<open>
  C6, as stated, fails: the script carries the clock reading of its generation, so a
  second call on the same explorer, made once the clock has moved, writes a different
  script.
\<close>

theorem generate_twice_counterexample:
  "test_file (fst (generate_test_files (sample_env Raised (\<lambda>s. None) (\<lambda>c. True))
                     (init_explorer ''app'' ''android'' ''shots'')
                     (snd (generate_test_files (sample_env Raised (\<lambda>s. None) (\<lambda>c. True))
                             (init_explorer ''app'' ''android'' ''shots'') 0))))
   \<noteq> test_file (fst (generate_test_files (sample_env Raised (\<lambda>s. None) (\<lambda>c. True))
                       (init_explorer ''app'' ''android'' ''shots'') 0))"
  by code_simp

text \<open>
  C6, amended: for one explorer state, the script of every call is the same text around
  the clock reading of its \<open># Generated:\<close> line, and the reports of two calls are equal
  once their timestamps are set equal: the clock is all that two calls can differ in.
\<close>

theorem generate_test_files_clock_only:
  "(\<exists>before after. \<forall>w. test_file (fst (generate_test_files env self w))
                          = before @ human (fst (datetime_now env w)) @ after)
   \<and> (report_file (fst (generate_test_files env self w))) \<lparr> report_timestamp := x \<rparr>
     = (report_file (fst (generate_test_files env self w'))) \<lparr> report_timestamp := x \<rparr>"
proof
  let ?before = "''appId: '' @ app_id self @ ''\<newline>---\<newline># Auto-generated UI Exploration Tests\<newline># Generated: ''"
  let ?after = "drop (length ?before) (test_content (py_format env) self [])"
  have "\<forall>w. test_file (fst (generate_test_files env self w))
             = ?before @ human (fst (datetime_now env w)) @ ?after"
    by (simp add: generate_test_files_def test_content_def test_header_def split: prod.splits)
  then show "\<exists>before after. \<forall>w. test_file (fst (generate_test_files env self w))
                          = before @ human (fst (datetime_now env w)) @ after"
    by blast
  show "(report_file (fst (generate_test_files env self w))) \<lparr> report_timestamp := x \<rparr>
     = (report_file (fst (generate_test_files env self w'))) \<lparr> report_timestamp := x \<rparr>"
    by (simp add: generate_test_files_def split: prod.splits)
qed

section \<open>The activation step of the generated script (C7)\<close>

text \<open>
  C7: the steps written for a flow whose element has nothing but bounds hold no
  \<open>tapOn\<close> step at all (the script waits, takes the screenshot and goes back), although
  \<open>tap_element\<close> taps the same element at the centre of the screen.
\<close>

theorem bounds_only_flow_gets_no_tap_step:
  \<open>flow_steps fmt
      \<lparr> from_screen = ''screen_depth0_10'', action = ''bounds:[0,0][9,9]'',
        to_screen = ''after_tap_bounds_[0,0][9,9]_15'', flow_depth = 0,
        flow_element = \<lparr> e_text = JStr [], e_accessibilityText = JStr [],
                         e_resource_id = JStr [], e_bounds = JStr ''[0,0][9,9]'',
                         e_class = JStr ''View'', e_path = ''/child[0]'',
                         e_identifier = ''bounds:[0,0][9,9]'' \<rparr> \<rparr>
     = ''# Test: bounds:[0,0][9,9]\<newline>- waitForAnimationToEnd\<newline>- takeScreenshot: "after_tap_bounds_[0,0][9,9]_15"\<newline>- back\<newline>- waitForAnimationToEnd\<newline>\<newline>''
   \<and> yaml_cmd fmt
        \<lparr> e_text = JStr [], e_accessibilityText = JStr [],
          e_resource_id = JStr [], e_bounds = JStr ''[0,0][9,9]'',
          e_class = JStr ''View'', e_path = ''/child[0]'',
          e_identifier = ''bounds:[0,0][9,9]'' \<rparr>
     = Some ''- tapOn:\<newline>    point: "50%,50%"''\<close>
  by (simp add: flow_steps_def yaml_cmd_def)

section \<open>Every identity is activated at most once (C1)\<close>

text \<open>
  C1: whatever a call of \<open>explore_screen\<close> adds to the log of activations and to the flow
  log, it adds for identifiers that were not in the Frontier when it was called, and for
  each of them at most once; the actions of the new flow records are the identifiers of
  the activations that succeeded. In a run of a fresh explorer, therefore, no identifier
  is the action of two flow records and none is activated twice, on whatever screens and
  however often it is listed.
\<close>

theorem each_identity_activated_once:
  "(explore_screen env d k (self, w) = Inr (self', w') \<longrightarrow>
      (\<exists>t fl. events self' = events self @ t
         \<and> discovered_flows self' = discovered_flows self @ fl
         \<and> visited_elements self' = visited_elements self \<union> set (tapped t)
         \<and> distinct (tapped t) \<and> set (tapped t) \<inter> visited_elements self = {}
         \<and> map action fl = succeeded t
         \<and> distinct (map action fl) \<and> set (map action fl) \<inter> visited_elements self = {}))
   \<and> (run_exploration env k (init_explorer a p dir, w0) = Inr (files, final, w1) \<longrightarrow>
        distinct (map action (discovered_flows final)) \<and> distinct (tapped (events final)))"
proof (rule conjI; rule impI)
  assume "explore_screen env d k (self, w) = Inr (self', w')"
  from explore_screen_once[OF this] obtain t fl where
    t: "events self' = events self @ t" "discovered_flows self' = discovered_flows self @ fl"
       "distinct (tapped t)" "set (tapped t) \<inter> visited_elements self = {}"
       "visited_elements self' = visited_elements self \<union> set (tapped t)"
       "map action fl = succeeded t"
    by blast
  from t(3) have "distinct (succeeded t)" by (rule distinct_succeeded)
  moreover from t(4) succeeded_subset_tapped[of t]
  have "set (succeeded t) \<inter> visited_elements self = {}" by blast
  ultimately show "\<exists>t fl. events self' = events self @ t
         \<and> discovered_flows self' = discovered_flows self @ fl
         \<and> visited_elements self' = visited_elements self \<union> set (tapped t)
         \<and> distinct (tapped t) \<and> set (tapped t) \<inter> visited_elements self = {}
         \<and> map action fl = succeeded t
         \<and> distinct (map action fl) \<and> set (map action fl) \<inter> visited_elements self = {}"
    using t by (intro exI[of _ t] exI[of _ fl]) simp
next
  assume "run_exploration env k (init_explorer a p dir, w0) = Inr (files, final, w1)"
  then obtain w w' where "explore_screen env 0 k (init_explorer a p dir, w) = Inr (final, w')"
    by (auto simp: run_exploration_def split: prod.splits sum.splits)
  from explore_screen_once[OF this] obtain t fl where
    t: "events final = t" "discovered_flows final = fl" "distinct (tapped t)"
       "map action fl = succeeded t"
    by (auto simp: init_explorer_def)
  from t(3) have "distinct (succeeded t)" by (rule distinct_succeeded)
  with t show "distinct (map action (discovered_flows final)) \<and> distinct (tapped (events final))"
    by simp
qed

text \<open>
  C1, witness: a device whose one screen lists the text \<open>A\<close> twice and then \<open>B\<close>, explored
  to depth 1. The first screen state lists \<open>A\<close> twice, yet one flow is recorded for it.
\<close>

theorem each_identity_activated_once_witness:
  "\<exists>files final w1.
      sample_run (screen_of [button ''A'' [] [] [], button ''A'' [] [] [], button ''B'' [] [] []])
        (\<lambda>c. True) 1 = Inr (files, final, w1)
      \<and> map (map e_identifier \<circ> elements) (screen_states final)
          = [[''text:A'', ''text:A'', ''text:B''], [''text:B'']]
      \<and> map action (discovered_flows final) = [''text:A'', ''text:B'']
      \<and> distinct (map action (discovered_flows final))
      \<and> distinct (tapped (events final))"
proof -
  let ?run = "sample_run (screen_of [button ''A'' [] [] [], button ''A'' [] [] [], button ''B'' [] [] []])
        (\<lambda>c. True) 1"
  have "case ?run of
          Inl err \<Rightarrow> False
        | Inr (files, final, w1) \<Rightarrow>
            map (map e_identifier \<circ> elements) (screen_states final)
              = [[''text:A'', ''text:A'', ''text:B''], [''text:B'']]
            \<and> map action (discovered_flows final) = [''text:A'', ''text:B'']"
    by code_simp
  then obtain files final w1 where run: "?run = Inr (files, final, w1)"
    and seen: "map (map e_identifier \<circ> elements) (screen_states final)
              = [[''text:A'', ''text:A'', ''text:B''], [''text:B'']]"
    and acts: "map action (discovered_flows final) = [''text:A'', ''text:B'']"
    by (auto split: sum.splits)
  from each_identity_activated_once[THEN conjunct2, rule_format, OF run[unfolded sample_run_def]]
  have once: "distinct (map action (discovered_flows final)) \<and> distinct (tapped (events final))" .
  show ?thesis
    by (rule exI[of _ files], rule exI[of _ final], rule exI[of _ w1])
       (use run seen acts once in simp)
qed

section \<open>The depth bound (C3)\<close>

text \<open>
  C3: a call of \<open>explore_screen\<close> above the maximum depth returns at once, leaving
  everything as it was; a call adds no screen state deeper than the maximum depth, so in
  a run, which starts at depth 0, every screen state has a depth from 0 to the maximum;
  and after a successful activation the loop descends exactly when its depth is below
  the maximum, to the depth one higher.
\<close>

theorem depth_bound:
  "(k < d \<longrightarrow> explore_screen env d k sw = Inr sw)
   \<and> (explore_screen env d k (self, w) = Inr (self', w')
        \<longrightarrow> (\<forall>ss\<in>set (screen_states self). depth ss \<le> k)
        \<longrightarrow> (\<forall>ss\<in>set (screen_states self'). depth ss \<le> k))
   \<and> (run_exploration env k (init_explorer a p dir, w0) = Inr (files, final, w1)
        \<longrightarrow> (\<forall>ss\<in>set (screen_states final). 0 \<le> depth ss \<and> depth ss \<le> k))
   \<and> (e_identifier e \<notin> visited_elements (fst sw) \<longrightarrow> try_element env d sn e sw = (True, sw1)
        \<longrightarrow> explore_elements env d k sn (e # rest) sw
            = (if d < k
               then case explore_screen env (d + 1) k sw1 of
                      Inl err \<Rightarrow> Inl err
                    | Inr sw2 \<Rightarrow> explore_elements env d k sn rest (backtrack env d sw2)
               else explore_elements env d k sn rest (backtrack env d sw1)))"
proof (intro conjI impI)
  assume "k < d"
  then show "explore_screen env d k sw = Inr sw"
    by (simp add: explore_screen.simps)
next
  assume run: "explore_screen env d k (self, w) = Inr (self', w')"
     and old: "\<forall>ss\<in>set (screen_states self). depth ss \<le> k"
  define lo where "lo = min d (Min (insert d (depth ` set (screen_states self))))"
  have "\<forall>ss\<in>set (screen_states self). lo \<le> depth ss \<and> depth ss \<le> k"
    using old by (auto simp: lo_def intro: min.coboundedI2 Min_le)
  moreover have "lo \<le> d" by (simp add: lo_def)
  ultimately show "\<forall>ss\<in>set (screen_states self'). depth ss \<le> k"
    using explore_screen_depths[OF run] by blast
next
  assume "run_exploration env k (init_explorer a p dir, w0) = Inr (files, final, w1)"
  then obtain w w' where "explore_screen env 0 k (init_explorer a p dir, w) = Inr (final, w')"
    by (auto simp: run_exploration_def split: prod.splits sum.splits)
  from explore_screen_depths[OF this, of 0]
  show "\<forall>ss\<in>set (screen_states final). 0 \<le> depth ss \<and> depth ss \<le> k"
    by (simp add: init_explorer_def)
next
  assume "e_identifier e \<notin> visited_elements (fst sw)" "try_element env d sn e sw = (True, sw1)"
  then show "explore_elements env d k sn (e # rest) sw
            = (if d < k
               then case explore_screen env (d + 1) k sw1 of
                      Inl err \<Rightarrow> Inl err
                    | Inr sw2 \<Rightarrow> explore_elements env d k sn rest (backtrack env d sw2)
               else explore_elements env d k sn rest (backtrack env d sw1))"
    by simp
qed

text \<open>
  C3, witness: a call at depth 2 with maximum depth 1, and a run to depth 1 on a device
  with two buttons, whose screen states have the depths 0 and 1.
\<close>

theorem depth_bound_witness:
  "(1::int) < 2
   \<and> explore_screen (sample_device (screen_of [button ''A'' [] [] [], button ''B'' [] [] []]) (\<lambda>c. True))
         2 1 (init_explorer ''com.whisker.android'' ''android'' ''shots'', 0)
       = Inr (init_explorer ''com.whisker.android'' ''android'' ''shots'', 0)
   \<and> (\<exists>files final w1.
         sample_run (screen_of [button ''A'' [] [] [], button ''B'' [] [] []]) (\<lambda>c. True) 1
           = Inr (files, final, w1)
         \<and> map depth (screen_states final) = [0, 1]
         \<and> list_all (\<lambda>ss. 0 \<le> depth ss \<and> depth ss \<le> 1) (screen_states final))"
proof -
  let ?snapshot = "screen_of [button ''A'' [] [] [], button ''B'' [] [] []]"
  let ?run = "sample_run ?snapshot (\<lambda>c. True) 1"
  note bound = depth_bound[where k = 1 and env = "sample_device ?snapshot (\<lambda>c. True)"]
  have "case ?run of
          Inl err \<Rightarrow> False
        | Inr (files, final, w1) \<Rightarrow> map depth (screen_states final) = [0, 1]"
    by code_simp
  then obtain files final w1 where run: "?run = Inr (files, final, w1)"
    and depths: "map depth (screen_states final) = [0, 1]"
    by (auto split: sum.splits)
  from bound[THEN conjunct2, THEN conjunct2, THEN conjunct1, rule_format,
             OF run[unfolded sample_run_def]]
  have all: "list_all (\<lambda>ss. 0 \<le> depth ss \<and> depth ss \<le> 1) (screen_states final)"
    by (simp add: list_all_iff)
  have "\<exists>files final w1. ?run = Inr (files, final, w1)
         \<and> map depth (screen_states final) = [0, 1]
         \<and> list_all (\<lambda>ss. 0 \<le> depth ss \<and> depth ss \<le> 1) (screen_states final)"
    by (rule exI[of _ files], rule exI[of _ final], rule exI[of _ w1])
       (use run depths all in simp)
  moreover have "(1::int) < 2" by simp
  moreover from bound[where d = 2, THEN conjunct1, rule_format, OF \<open>(1::int) < 2\<close>]
  have "explore_screen (sample_device ?snapshot (\<lambda>c. True)) 2 1
          (init_explorer ''com.whisker.android'' ''android'' ''shots'', 0)
        = Inr (init_explorer ''com.whisker.android'' ''android'' ''shots'', 0)" .
  ultimately show ?thesis by blast
qed

section \<open>The flows handed to the backend\<close>

text \<open>
  The rule \<open>explore_invariant\<close> again, for properties of the explorer together with the
  world: besides the three blocks, the snapshot request may change the world.
\<close>

lemma explore_world_invariant:
  assumes gh: "\<And>d s w h w'. d0 \<le> d \<Longrightarrow> d \<le> k \<Longrightarrow> I d (s, w)
                  \<Longrightarrow> get_hierarchy env w = (h, w') \<Longrightarrow> I d (s, w')"
      and cap: "\<And>d h sw sn cl sw'. d0 \<le> d \<Longrightarrow> d \<le> k \<Longrightarrow> I d sw
                  \<Longrightarrow> capture_screen env d h sw = Inr (sn, cl, sw') \<Longrightarrow> I d sw'"
      and tr: "\<And>d sn e sw b sw'. d0 \<le> d \<Longrightarrow> d \<le> k \<Longrightarrow> I d sw
                  \<Longrightarrow> e_identifier e \<notin> visited_elements (fst sw)
                  \<Longrightarrow> try_element env d sn e sw = (b, sw')
                  \<Longrightarrow> I (if b then d + 1 else d) sw'"
      and bk: "\<And>d sw. d0 \<le> d \<Longrightarrow> d \<le> k \<Longrightarrow> I (d + 1) sw \<Longrightarrow> I d (backtrack env d sw)"
  shows "explore_screen env d k sw = Inr sw' \<Longrightarrow> d0 \<le> d \<Longrightarrow> I d sw \<Longrightarrow> I d sw'"
    and "explore_elements env d k sn els sw = Inr sw' \<Longrightarrow> d0 \<le> d \<Longrightarrow> d \<le> k \<Longrightarrow> I d sw
           \<Longrightarrow> I d sw'"
  using gh cap tr bk
proof (induction env d k sw and env d k sn els sw arbitrary: sw' and sw'
       rule: explore_screen_explore_elements.induct)
  case (1 env depth' max_depth sw)
  note run = "1.prems"(1) and low = "1.prems"(2) and inv = "1.prems"(3)
   and gh = "1.prems"(4) and cap = "1.prems"(5) and tr = "1.prems"(6) and bk = "1.prems"(7)
  show ?case
  proof (cases "depth' > max_depth")
    case True
    with run inv show ?thesis by (simp add: explore_screen.simps)
  next
    case shallow: False
    then have high: "depth' \<le> max_depth" by simp
    obtain h w1 where got: "get_hierarchy env (snd sw) = (h, w1)"
      by (cases "get_hierarchy env (snd sw)")
    from inv have "I depth' (fst sw, snd sw)" by simp
    from gh[OF low high this got] have inv1: "I depth' (fst sw, w1)" .
    show ?thesis
    proof (cases "truthy h")
      case False
      with shallow got run inv1 show ?thesis by (auto simp: explore_screen.simps)
    next
      case True
      from run shallow got True obtain sn cl sw1
        where cs: "capture_screen env depth' h (fst sw, w1) = Inr (sn, cl, sw1)"
          and ee: "explore_elements env depth' max_depth sn cl sw1 = Inr sw'"
        by (auto simp: explore_screen.simps split: sum.splits)
      from cap[OF low high inv1 cs] have "I depth' sw1" .
      from "1.IH"[OF shallow got[symmetric] _ cs refl refl ee low high this gh cap tr bk] True
      show ?thesis by simp
    qed
  qed
next
  case (2 env depth' max_depth screenshot_name sw)
  then show ?case by simp
next
  case (3 env depth' max_depth screenshot_name element rest sw)
  note run = "3.prems"(1) and low = "3.prems"(2) and high = "3.prems"(3) and inv = "3.prems"(4)
   and gh = "3.prems"(5) and cap = "3.prems"(6) and tr = "3.prems"(7) and bk = "3.prems"(8)
  show ?case
  proof (cases "e_identifier element \<in> visited_elements (fst sw)")
    case True
    with run have "explore_elements env depth' max_depth screenshot_name rest sw = Inr sw'"
      by simp
    from "3.IH"(1)[OF True this low high inv gh cap tr bk] show ?thesis .
  next
    case fresh: False
    obtain b sw1 where te: "try_element env depth' screenshot_name element sw = (b, sw1)"
      by (cases "try_element env depth' screenshot_name element sw") auto
    from tr[OF low high inv fresh te] have inv1: "I (if b then depth' + 1 else depth') sw1" .
    show ?thesis
    proof (cases b)
      case False
      with run fresh te
      have "explore_elements env depth' max_depth screenshot_name rest sw1 = Inr sw'"
        by simp
      from "3.IH"(4)[OF fresh te[symmetric] _ this low high _ gh cap tr bk] False inv1
      show ?thesis by simp
    next
      case True
      from low have low1: "d0 \<le> depth' + 1" by simp
      show ?thesis
      proof (cases "depth' < max_depth")
        case deeper: True
        from run fresh te \<open>b\<close> deeper obtain sw2
          where es: "explore_screen env (depth' + 1) max_depth sw1 = Inr sw2"
            and ee: "explore_elements env depth' max_depth screenshot_name rest
                       (backtrack env depth' sw2) = Inr sw'"
          by (auto split: sum.splits)
        from "3.IH"(2)[OF fresh te[symmetric] \<open>b\<close> deeper es low1 _ gh cap tr bk] inv1 \<open>b\<close>
        have "I (depth' + 1) sw2" by simp
        from bk[OF low high this] have "I depth' (backtrack env depth' sw2)" .
        from "3.IH"(3)[OF fresh te[symmetric] \<open>b\<close> _ ee low high this gh cap tr bk] deeper es
        show ?thesis by simp
      next
        case flat: False
        from run fresh te \<open>b\<close> flat
        have ee: "explore_elements env depth' max_depth screenshot_name rest
                       (backtrack env depth' sw1) = Inr sw'"
          by simp
        from inv1 \<open>b\<close> have "I (depth' + 1) sw1" by simp
        from bk[OF low high this] have "I depth' (backtrack env depth' sw1)" .
        from "3.IH"(3)[OF fresh te[symmetric] \<open>b\<close> _ ee low high this gh cap tr bk] flat
        show ?thesis by simp
      qed
    qed
  qed
qed

text \<open>Which flows each block hands to a recording backend.\<close>

lemma recording_get_hierarchy:
  "get_hierarchy (recording env) (w, calls) = (h, (w', calls')) \<Longrightarrow> calls' = calls"
  by (auto simp: get_hierarchy_def recording_def split: prod.splits proc_result.splits
                 if_splits option.splits)

lemma recording_take_screenshot:
  "snd (take_screenshot (recording env) s name (w, calls)) = calls"
  by (simp add: take_screenshot_def recording_def Let_def)

lemma recording_capture_screen:
  assumes "capture_screen (recording env) d h (s, (w, calls)) = Inr (sn, cl, s', (w', calls'))"
  shows "calls' = calls \<and> events s' = events s"
proof -
  from capture_screen_result[OF assms] have ev: "events s' = events s" by auto
  have "calls' = calls"
    using assms recording_take_screenshot[of env s _ _ calls]
    by (auto simp: capture_screen_def Let_def recording_def take_screenshot_def
             split: prod.splits sum.splits if_splits)
  with ev show ?thesis by simp
qed

lemma tap_name_is_no_back_name:
  "take 18 (''/tmp/maestro_tap_'' @ x) \<noteq> ''/tmp/maestro_back_''"
  by simp

lemma back_name_is_back_name:
  "take 18 (''/tmp/maestro_back_'' @ x) = ''/tmp/maestro_back_''"
  by simp

lemma back_content_ends_with_back:
  "drop (length (''appId: '' @ app @ ''\<newline>---\<newline>- back\<newline>'') - 7)
        (''appId: '' @ app @ ''\<newline>---\<newline>- back\<newline>'')
     = ''- back\<newline>''"
  by simp

lemma recording_tap_element:
  assumes "tap_element (recording env) s e (w, calls) = (b, (w', calls'))"
  shows "\<exists>new. calls' = calls @ new
           \<and> filter (\<lambda>x. x \<noteq> Failed) (map flow_step new) = (if b then [Activated] else [])"
proof (cases "yaml_cmd (py_format (recording env)) e")
  case None
  with assms have "calls' = calls" "\<not> b" by (simp_all add: tap_element_def)
  then show ?thesis by simp
next
  case (Some cmd)
  obtain t w1 where t: "time_time env w = (t, w1)" by (cases "time_time env w")
  let ?name = "''/tmp/maestro_tap_'' @ py_str_int t @ ''.yaml''"
  let ?content = "''appId: '' @ app_id s @ ''\<newline>---\<newline>'' @ cmd @ ''\<newline>''"
  obtain outcome w2 where run: "maestro_test env ?name ?content w1 = (outcome, w2)"
    by (cases "maestro_test env ?name ?content w1")
  from assms Some t run
  have calls': "calls' = calls @ [(?name, ?content, outcome)]"
    and b: "b = (case outcome of Raised \<Rightarrow> False | Completed returncode output \<Rightarrow> returncode = 0)"
    by (auto simp: tap_element_def recording_def Let_def split: proc_result.splits)
  have "flow_step (?name, ?content, outcome) = (if b then Activated else Failed)"
    using b tap_name_is_no_back_name[of "py_str_int t @ ''.yaml''"]
    by (simp add: flow_step_def split: proc_result.splits)
  with calls' show ?thesis by simp
qed

lemma recording_go_back:
  assumes "go_back (recording env) s (w, calls) = (w', calls')"
  shows "\<exists>call. calls' = calls @ [call] \<and> flow_step call = Navigated_back"
proof -
  obtain t w1 where t: "time_time env w = (t, w1)" by (cases "time_time env w")
  let ?name = "''/tmp/maestro_back_'' @ py_str_int t @ ''.yaml''"
  let ?content = "''appId: '' @ app_id s @ ''\<newline>---\<newline>- back\<newline>''"
  obtain outcome w2 where run: "maestro_test env ?name ?content w1 = (outcome, w2)"
    by (cases "maestro_test env ?name ?content w1")
  from assms t run have "calls' = calls @ [(?name, ?content, outcome)]"
    by (auto simp: go_back_def recording_def Let_def split: proc_result.splits)
  moreover have "flow_step (?name, ?content, outcome) = Navigated_back"
    using back_name_is_back_name[of "py_str_int t @ ''.yaml''"]
          back_content_ends_with_back[of "app_id s"]
    by (simp add: flow_step_def)
  ultimately show ?thesis by blast
qed

lemma recording_try_element:
  assumes "try_element (recording env) d sn e (s, (w, calls)) = (b, s', (w', calls'))"
  shows "\<exists>new. calls' = calls @ new
           \<and> filter (\<lambda>x. x \<noteq> Failed) (map flow_step new) = (if b then [Activated] else [])"
proof -
  let ?s1 = "s\<lparr> visited_elements := insert (e_identifier e) (visited_elements s) \<rparr>"
  obtain b1 w1 calls1 where tap: "tap_element (recording env) ?s1 e (w, calls) = (b1, (w1, calls1))"
    by (cases "tap_element (recording env) ?s1 e (w, calls)") auto
  from assms tap have "b = b1"
    by (auto simp: try_element_def Let_def split: prod.splits if_splits)
  have "calls' = calls1"
    using assms tap
    by (auto simp: try_element_def Let_def recording_def take_screenshot_def
             split: prod.splits if_splits)
  with recording_tap_element[OF tap] \<open>b = b1\<close> show ?thesis by simp
qed

lemma recording_backtrack:
  assumes "backtrack (recording env) d (s, (w, calls)) = (s', (w', calls'))"
  shows "\<exists>call. calls' = calls @ [call] \<and> flow_step call = Navigated_back"
proof -
  obtain w1 calls1 where gone: "go_back (recording env) s (w, calls) = (w1, calls1)"
    by (cases "go_back (recording env) s (w, calls)")
  with assms have "calls' = calls1"
    by (simp add: backtrack_def recording_def)
  with recording_go_back[OF gone] show ?thesis by simp
qed

text \<open>From the log of calls to the flows of the backend.\<close>

lemma nesting_skips_failed:
  "nesting n (filter (\<lambda>x. x \<noteq> Failed) steps) = nesting n steps"
  by (induction n steps rule: nesting.induct) (simp_all split: nat.splits)

lemma pairing_nesting:
  "pairing base cur t = Some c \<Longrightarrow> base \<le> cur
     \<Longrightarrow> nesting (nat (cur - base)) (map event_step t) = Some (nat (c - base))"
proof (induction base cur t rule: pairing.induct)
  case (1 base cur)
  then show ?case by simp
next
  case (2 base cur d i b evs)
  from "2.prems" have d: "d = cur" by (simp split: if_splits)
  show ?case
  proof (cases b)
    case True
    with "2.prems" d have rest: "pairing base (cur + 1) evs = Some c" by simp
    from "2.prems"(2) have up: "nat (cur + 1 - base) = Suc (nat (cur - base))" by simp
    from "2.IH"[OF d] rest "2.prems"(2) True
    have "nesting (nat (cur + 1 - base)) (map event_step evs) = Some (nat (c - base))"
      by simp
    with up True show ?thesis by simp
  next
    case False
    with "2.prems" d have rest: "pairing base cur evs = Some c" by simp
    from "2.IH"[OF d] rest "2.prems"(2) False show ?thesis by simp
  qed
next
  case (3 base cur d evs)
  from "3.prems" have d: "d + 1 = cur \<and> base \<le> d" and rest: "pairing base d evs = Some c"
    by (simp_all split: if_splits)
  from "3.IH"[OF d rest] d
  have "nesting (nat (d - base)) (map event_step evs) = Some (nat (c - base))" by simp
  moreover from d have "nat (cur - base) = Suc (nat (d - base))" by auto
  ultimately show ?case by simp
qed

lemma count_skips_failed:
  "x \<noteq> Failed \<Longrightarrow> count_list (filter (\<lambda>x. x \<noteq> Failed) steps) x = count_list steps x"
  by (induction steps) auto

lemma count_event_steps:
  "count_list (map event_step t) Navigated_back = backs t"
  "count_list (map event_step t) Activated = length (succeeded t)"
  by (induction t rule: backs.induct) simp_all

lemma recording_generate_test_files:
  "snd (snd (generate_test_files (recording env) s (w, calls))) = calls"
  by (simp add: generate_test_files_def recording_def split: prod.splits)

lemma explore_screen_recorded:
  assumes run: "explore_screen (recording env) d k (self, (w, calls)) = Inr (self', (w', calls'))"
  shows "\<exists>t new. events self' = events self @ t \<and> calls' = calls @ new
           \<and> filter (\<lambda>x. x \<noteq> Failed) (map flow_step new)
               = filter (\<lambda>x. x \<noteq> Failed) (map event_step t)"
proof -
  let ?I = "\<lambda>(c::int) (sw :: explorer \<times> 'a \<times> flow_call list).
              \<exists>t new. events (fst sw) = events self @ t \<and> snd (snd sw) = calls @ new
           \<and> filter (\<lambda>x. x \<noteq> Failed) (map flow_step new)
               = filter (\<lambda>x. x \<noteq> Failed) (map event_step t)"
  have "?I d (self', (w', calls'))"
  proof (rule explore_world_invariant(1)[where I = ?I and ?d0.0 = d and env = "recording env", OF _ _ _ _ run])
    fix c s wc h wc'
    assume "?I c (s, wc)" "get_hierarchy (recording env) wc = (h, wc')"
    then show "?I c (s, wc')"
      using recording_get_hierarchy[of env "fst wc" "snd wc" h "fst wc'" "snd wc'"] by simp
  next
    fix c h sw sn cl sw'
    assume inv: "?I c sw" and cs: "capture_screen (recording env) c h sw = Inr (sn, cl, sw')"
    from recording_capture_screen[of env c h "fst sw" "fst (snd sw)" "snd (snd sw)" sn cl
            "fst sw'" "fst (snd sw')" "snd (snd sw')"] cs
    have "snd (snd sw') = snd (snd sw)" "events (fst sw') = events (fst sw)" by simp_all
    with inv show "?I c sw'" by simp
  next
    fix c sn e sw b sw'
    assume inv: "?I c sw" and te: "try_element (recording env) c sn e sw = (b, sw')"
    from inv obtain t new where t: "events (fst sw) = events self @ t"
      "snd (snd sw) = calls @ new"
      "filter (\<lambda>x. x \<noteq> Failed) (map flow_step new)
               = filter (\<lambda>x. x \<noteq> Failed) (map event_step t)"
      by blast
    from te have te': "try_element (recording env) c sn e (fst sw, (fst (snd sw), snd (snd sw)))
                         = (b, fst sw', (fst (snd sw'), snd (snd sw')))"
      by simp
    from recording_try_element[OF te'] obtain more where
      more: "snd (snd sw') = snd (snd sw) @ more"
        "filter (\<lambda>x. x \<noteq> Failed) (map flow_step more) = (if b then [Activated] else [])"
      by blast
    from try_element_result[OF te']
    have ev: "events (fst sw') = events (fst sw) @ [Tap c (e_identifier e) b]" by auto
    have "events (fst sw') = events self @ (t @ [Tap c (e_identifier e) b])"
      using ev t by simp
    moreover have "snd (snd sw') = calls @ (new @ more)" using more t by simp
    moreover have "filter (\<lambda>x. x \<noteq> Failed) (map flow_step (new @ more))
               = filter (\<lambda>x. x \<noteq> Failed) (map event_step (t @ [Tap c (e_identifier e) b]))"
      using t more by simp
    ultimately show "?I (if b then c + 1 else c) sw'" by blast
  next
    fix c sw
    assume inv: "?I (c + 1) sw"
    then obtain t new where t: "events (fst sw) = events self @ t"
      "snd (snd sw) = calls @ new"
      "filter (\<lambda>x. x \<noteq> Failed) (map flow_step new)
               = filter (\<lambda>x. x \<noteq> Failed) (map event_step t)"
      by blast
    let ?sw' = "backtrack (recording env) c sw"
    have bt: "backtrack (recording env) c (fst sw, (fst (snd sw), snd (snd sw)))
                = (fst ?sw', (fst (snd ?sw'), snd (snd ?sw')))"
      by simp
    from recording_backtrack[OF bt] obtain call where
      call: "snd (snd ?sw') = snd (snd sw) @ [call]" "flow_step call = Navigated_back"
      by blast
    from backtrack_result[of "recording env" c "fst sw" "snd sw"]
    have ev: "events (fst ?sw') = events (fst sw) @ [Back c]" by simp
    have "events (fst ?sw') = events self @ (t @ [Back c])" using ev t by simp
    moreover have "snd (snd ?sw') = calls @ (new @ [call])" using call t by simp
    moreover have "filter (\<lambda>x. x \<noteq> Failed) (map flow_step (new @ [call]))
               = filter (\<lambda>x. x \<noteq> Failed) (map event_step (t @ [Back c]))"
      using t call by simp
    ultimately show "?I c ?sw'" by blast
  next
    show "?I d (self, (w, calls))" by simp
  qed simp
  then show ?thesis by simp
qed

lemma explore_screen_backend_pairing:
  assumes run: "explore_screen (recording env) d k (self, (w, calls)) = Inr (self', (w', calls'))"
  shows "\<exists>new t. calls' = calls @ new \<and> events self' = events self @ t
         \<and> nesting 0 (map flow_step new) = Some 0
         \<and> count_list (map flow_step new) Navigated_back
             = count_list (map flow_step new) Activated
         \<and> filter (\<lambda>x. x \<noteq> Failed) (map flow_step new)
             = filter (\<lambda>x. x \<noteq> Failed) (map event_step t)
         \<and> pairing d d t = Some d
         \<and> (\<forall>ev\<in>set t. d \<le> event_depth ev \<and> event_depth ev \<le> k)"
proof -
  from explore_screen_recorded[OF run] obtain t new where
    t: "events self' = events self @ t" and new: "calls' = calls @ new"
    and link: "filter (\<lambda>x. x \<noteq> Failed) (map flow_step new)
               = filter (\<lambda>x. x \<noteq> Failed) (map event_step t)"
    by blast
  from explore_screen_pairing[OF run] t
  have p: "pairing d d t = Some d"
    and depths: "\<forall>ev\<in>set t. d \<le> event_depth ev \<and> event_depth ev \<le> k"
    by auto
  from pairing_nesting[OF p] have "nesting 0 (map event_step t) = Some 0" by simp
  then have "nesting 0 (filter (\<lambda>x. x \<noteq> Failed) (map event_step t)) = Some 0"
    by (simp only: nesting_skips_failed)
  with link have "nesting 0 (filter (\<lambda>x. x \<noteq> Failed) (map flow_step new)) = Some 0"
    by simp
  then have nest: "nesting 0 (map flow_step new) = Some 0"
    by (simp only: nesting_skips_failed)
  from pairing_counts[OF p] have "backs t = length (succeeded t)" by simp
  then have "count_list (filter (\<lambda>x. x \<noteq> Failed) (map event_step t)) Navigated_back
           = count_list (filter (\<lambda>x. x \<noteq> Failed) (map event_step t)) Activated"
    by (simp add: count_skips_failed count_event_steps)
  with link have "count_list (filter (\<lambda>x. x \<noteq> Failed) (map flow_step new)) Navigated_back
           = count_list (filter (\<lambda>x. x \<noteq> Failed) (map flow_step new)) Activated"
    by simp
  then have counts: "count_list (map flow_step new) Navigated_back
             = count_list (map flow_step new) Activated"
    by (simp add: count_skips_failed)
  from new t nest counts link p depths show ?thesis by blast
qed

section \<open>Back navigation pairs with successful activation (C5)\<close>

text \<open>
  C5, as stated for every run, fails: a run can end between a successful activation and
  its back navigation. The device shows the button \<open>A\<close> first and afterwards a screen
  whose clickable node has the number 5 as its text. From world 1 the snapshot is the
  first screen; capturing it stores the screen state. Activating \<open>A\<close> succeeds, and the
  only flow handed to the backend so far is that activation. The descent to depth 1 then
  raises \<^verbatim>\<open>AttributeError\<close> while the elements of the second screen are collected
  (\<^verbatim>\<open>.strip()\<close> on a number, line 101): \<open>explore_screen\<close> at depth 1 raises, so the element
  loop of depth 0 raises from line 278 without reaching \<^verbatim>\<open>self.go_back()\<close> at line 282,
  and \<open>run_exploration\<close>, which catches \<^verbatim>\<open>KeyboardInterrupt\<close> only, raises as well. The
  successful activation of \<open>A\<close> is followed by no back navigation.
\<close>

theorem aborted_descent_leaves_activation_unanswered_counterexample:
  "get_hierarchy aborting_device (1, []) = (screen_of [button ''A'' [] [] []], (2, []))
   \<and> capture_screen aborting_device 0 (screen_of [button ''A'' [] [] []])
         (init_explorer ''com.whisker.android'' ''android'' ''shots'', (2, []))
       = Inr (''screen_depth0_2'', [element_A], after_first_capture, (5, []))
   \<and> fst (try_element aborting_device 0 ''screen_depth0_2'' element_A (after_first_capture, (5, [])))
   \<and> map flow_step
         (snd (snd (snd (try_element aborting_device 0 ''screen_depth0_2'' element_A
                           (after_first_capture, (5, []))))))
       = [Activated]
   \<and> explore_screen aborting_device 1 1
         (snd (try_element aborting_device 0 ''screen_depth0_2'' element_A
                 (after_first_capture, (5, []))))
       = Inl AttributeError
   \<and> explore_elements aborting_device 0 1 ''screen_depth0_2'' [element_A]
         (after_first_capture, (5, []))
       = Inl AttributeError
   \<and> run_exploration aborting_device 1
         (init_explorer ''com.whisker.android'' ''android'' ''shots'', (0, []))
       = Inl AttributeError"
  by code_simp

text \<open>
  C5, amended to the calls and runs that return. The backend is any backend, wrapped by
  \<open>recording\<close> so that the world keeps the flows \<^verbatim>\<open>maestro test\<close> was run on, in order.
  The flows a call of \<open>explore_screen\<close> at depth \<open>d\<close> hands over are well nested: every
  back flow answers the latest successful activation not yet answered, and none is left
  unanswered at the end, so there are as many back flows as successful activations.
  Leaving the failed activations out, these flows are, one for one and in the same
  order, the successful calls of \<open>tap_element\<close> and the calls of \<open>go_back\<close> the explorer
  made. Those calls are accepted by \<open>pairing\<close> from depth \<open>d\<close> back to depth \<open>d\<close>: a
  successful activation at some depth is followed by calls of greater depth only (the
  descent, none when the depth is the maximum, since no call is deeper than that) and
  then by one back navigation at its own depth, before anything else happens at that
  depth; a failed activation is followed by no back navigation of its own. The same for
  a whole run from a fresh explorer, whose script generation runs no flow.
\<close>

theorem back_navigation_answers_every_activation:
  "(explore_screen (recording env) d k (self, (w, calls)) = Inr (self', (w', calls')) \<longrightarrow>
      (\<exists>new t. calls' = calls @ new \<and> events self' = events self @ t
         \<and> nesting 0 (map flow_step new) = Some 0
         \<and> count_list (map flow_step new) Navigated_back
             = count_list (map flow_step new) Activated
         \<and> filter (\<lambda>x. x \<noteq> Failed) (map flow_step new)
             = filter (\<lambda>x. x \<noteq> Failed) (map event_step t)
         \<and> pairing d d t = Some d
         \<and> backs t = length (succeeded t)
         \<and> (\<forall>ev\<in>set t. d \<le> event_depth ev \<and> event_depth ev \<le> k)))
   \<and> (run_exploration (recording env) k (init_explorer a p dir, (w0, []))
         = Inr (files, final, (w1, calls1)) \<longrightarrow>
        nesting 0 (map flow_step calls1) = Some 0
        \<and> count_list (map flow_step calls1) Navigated_back
            = count_list (map flow_step calls1) Activated
        \<and> filter (\<lambda>x. x \<noteq> Failed) (map flow_step calls1)
            = filter (\<lambda>x. x \<noteq> Failed) (map event_step (events final))
        \<and> pairing 0 0 (events final) = Some 0
        \<and> backs (events final) = length (succeeded (events final)))"
proof (rule conjI; rule impI)
  assume "explore_screen (recording env) d k (self, (w, calls)) = Inr (self', (w', calls'))"
  from explore_screen_backend_pairing[OF this] obtain new t where
    t: "calls' = calls @ new" "events self' = events self @ t"
       "nesting 0 (map flow_step new) = Some 0"
       "count_list (map flow_step new) Navigated_back = count_list (map flow_step new) Activated"
       "filter (\<lambda>x. x \<noteq> Failed) (map flow_step new)
          = filter (\<lambda>x. x \<noteq> Failed) (map event_step t)"
       "pairing d d t = Some d"
       "\<forall>ev\<in>set t. d \<le> event_depth ev \<and> event_depth ev \<le> k"
    by blast
  from pairing_counts[OF t(6)] have "backs t = length (succeeded t)" by simp
  with t show "\<exists>new t. calls' = calls @ new \<and> events self' = events self @ t
         \<and> nesting 0 (map flow_step new) = Some 0
         \<and> count_list (map flow_step new) Navigated_back
             = count_list (map flow_step new) Activated
         \<and> filter (\<lambda>x. x \<noteq> Failed) (map flow_step new)
             = filter (\<lambda>x. x \<noteq> Failed) (map event_step t)
         \<and> pairing d d t = Some d
         \<and> backs t = length (succeeded t)
         \<and> (\<forall>ev\<in>set t. d \<le> event_depth ev \<and> event_depth ev \<le> k)"
    by blast
next
  let ?init = "init_explorer a p dir"
  assume run: "run_exploration (recording env) k (?init, (w0, []))
                 = Inr (files, final, (w1, calls1))"
  obtain t0 wa where t0: "time_time env w0 = (t0, wa)"
    by (cases "time_time env w0")
  then have start: "time_time (recording env) (w0, []) = (t0, (wa, []))"
    by (simp add: recording_def)
  from run start obtain wb cs where
    es: "explore_screen (recording env) 0 k (?init, (wa, [])) = Inr (final, (wb, cs))"
    by (auto simp: run_exploration_def split: prod.splits sum.splits)
  obtain t1 wc where t1: "time_time env wb = (t1, wc)"
    by (cases "time_time env wb")
  then have stop: "time_time (recording env) (wb, cs) = (t1, (wc, cs))"
    by (simp add: recording_def)
  from run start es stop
  have "snd (snd (generate_test_files (recording env) final (wc, cs))) = calls1"
    by (auto simp: run_exploration_def split: prod.splits)
  with recording_generate_test_files[of env final wc cs] have same: "calls1 = cs" by simp
  from explore_screen_backend_pairing[OF es] same
  have flows: "nesting 0 (map flow_step calls1) = Some 0
        \<and> count_list (map flow_step calls1) Navigated_back
            = count_list (map flow_step calls1) Activated
        \<and> filter (\<lambda>x. x \<noteq> Failed) (map flow_step calls1)
            = filter (\<lambda>x. x \<noteq> Failed) (map event_step (events final))
        \<and> pairing 0 0 (events final) = Some 0"
    by (auto simp: init_explorer_def)
  then have "pairing 0 0 (events final) = Some 0" by simp
  from pairing_counts[OF this] have "backs (events final) = length (succeeded (events final))"
    by simp
  with flows show "nesting 0 (map flow_step calls1) = Some 0
        \<and> count_list (map flow_step calls1) Navigated_back
            = count_list (map flow_step calls1) Activated
        \<and> filter (\<lambda>x. x \<noteq> Failed) (map flow_step calls1)
            = filter (\<lambda>x. x \<noteq> Failed) (map event_step (events final))
        \<and> pairing 0 0 (events final) = Some 0
        \<and> backs (events final) = length (succeeded (events final))"
    by simp
qed

text \<open>
  C5, witness: two buttons, of which \<open>B\<close> cannot be activated, explored to depth 1 by a
  recording device. The backend is handed three flows: the activation of \<open>A\<close>, which
  succeeds at depth 0, the activation of \<open>B\<close>, which fails on the screen below, and one
  back flow.
\<close>

theorem back_navigation_answers_every_activation_witness:
  "\<exists>files final w1 calls1.
      run_exploration
        (recording (sample_device (screen_of [button ''A'' [] [] [], button ''B'' [] [] []])
                      (all_but ''B'')))
        1 (init_explorer ''com.whisker.android'' ''android'' ''shots'', (0, []))
        = Inr (files, final, (w1, calls1))
      \<and> events final = [Tap 0 ''text:A'' True, Tap 1 ''text:B'' False, Back 0]
      \<and> map flow_step calls1 = [Activated, Failed, Navigated_back]
      \<and> map fst calls1
          = [''/tmp/maestro_tap_5.yaml'', ''/tmp/maestro_tap_15.yaml'',
             ''/tmp/maestro_back_17.yaml'']
      \<and> nesting 0 (map flow_step calls1) = Some 0
      \<and> count_list (map flow_step calls1) Navigated_back
          = count_list (map flow_step calls1) Activated
      \<and> pairing 0 0 (events final) = Some 0
      \<and> backs (events final) = length (succeeded (events final))"
proof -
  let ?env = "sample_device (screen_of [button ''A'' [] [] [], button ''B'' [] [] []])
                (all_but ''B'')"
  let ?run = "run_exploration (recording ?env) 1
                (init_explorer ''com.whisker.android'' ''android'' ''shots'', (0, []))"
  have "case ?run of
          Inl err \<Rightarrow> False
        | Inr (files, final, w1, calls1) \<Rightarrow>
            events final = [Tap 0 ''text:A'' True, Tap 1 ''text:B'' False, Back 0]
            \<and> map flow_step calls1 = [Activated, Failed, Navigated_back]
            \<and> map fst calls1
                = [''/tmp/maestro_tap_5.yaml'', ''/tmp/maestro_tap_15.yaml'',
                   ''/tmp/maestro_back_17.yaml'']"
    by code_simp
  then obtain files final w1 calls1 where run: "?run = Inr (files, final, (w1, calls1))"
    and evs: "events final = [Tap 0 ''text:A'' True, Tap 1 ''text:B'' False, Back 0]"
    and steps: "map flow_step calls1 = [Activated, Failed, Navigated_back]"
    and names: "map fst calls1
                = [''/tmp/maestro_tap_5.yaml'', ''/tmp/maestro_tap_15.yaml'',
                   ''/tmp/maestro_back_17.yaml'']"
    by (auto split: sum.splits)
  from back_navigation_answers_every_activation[THEN conjunct2, rule_format, OF run]
  have answered: "nesting 0 (map flow_step calls1) = Some 0"
     "count_list (map flow_step calls1) Navigated_back = count_list (map flow_step calls1) Activated"
     "pairing 0 0 (events final) = Some 0"
     "backs (events final) = length (succeeded (events final))"
    by blast+
  show ?thesis
    by (rule exI[of _ files], rule exI[of _ final], rule exI[of _ w1], rule exI[of _ calls1])
       (use run evs steps names answered in simp)
qed

section \<open>Snapshot capture that fails (C9)\<close>

lemma flows_by_screen_Nil: "flows_by_screen [] = []"
  by (simp add: flows_by_screen_def)

lemma explore_screen_capture_fails:
  assumes "capture_fails env w"
  shows "\<exists>w'. explore_screen env d k (self, w) = Inr (self, w')"
proof (cases "k < d")
  case True
  then show ?thesis by (simp add: explore_screen.simps)
next
  case False
  obtain h w1 where gh: "get_hierarchy env w = (h, w1)"
    by (cases "get_hierarchy env w")
  with get_hierarchy_fails[OF assms] have "h = JNull" by simp
  with False gh show ?thesis by (simp add: explore_screen.simps)
qed

text \<open>
  C9: when snapshot capture fails where \<open>explore_screen\<close> is called, the call returns
  (it raises nothing) with the explorer as it was: no screen state, no flow record, no
  Frontier entry and no call is added. When capture fails at the root of a run of a fresh
  explorer, the run returns with no screen state, no flow record and an empty Frontier;
  the script is the header and its two bootstrap steps, and the report counts 0 and 0.
\<close>

theorem capture_failure_stops_quietly:
  \<open>(capture_fails env w \<longrightarrow> (\<exists>w'. explore_screen env d k (self, w) = Inr (self, w')))
   \<and> (capture_fails env (snd (time_time env w0)) \<longrightarrow>
        (\<exists>files w1 generated.
           run_exploration env k (init_explorer a p dir, w0)
             = Inr (files, init_explorer a p dir, w1)
           \<and> screen_states (init_explorer a p dir) = []
           \<and> discovered_flows (init_explorer a p dir) = []
           \<and> visited_elements (init_explorer a p dir) = {}
           \<and> test_file files
               = ''appId: '' @ a @ ''\<newline>---\<newline># Auto-generated UI Exploration Tests\<newline># Generated: ''
                 @ generated
                 @ ''\<newline># Total screens explored: 0\<newline># Total interactions discovered: 0\<newline>\<newline>- waitForAnimationToEnd\<newline>- takeScreenshot: "exploration_start"\<newline>\<newline>''
           \<and> total_screens (report_file files) = 0
           \<and> total_interactions (report_file files) = 0
           \<and> flows (report_file files) = []
           \<and> report_visited_elements (report_file files) = {}))\<close>
proof (rule conjI; rule impI)
  assume "capture_fails env w"
  then show "\<exists>w'. explore_screen env d k (self, w) = Inr (self, w')"
    by (rule explore_screen_capture_fails)
next
  let ?init = "init_explorer a p dir"
  assume fails: "capture_fails env (snd (time_time env w0))"
  obtain t0 wa where t0: "time_time env w0 = (t0, wa)"
    by (cases "time_time env w0")
  with fails have "capture_fails env wa" by simp
  from explore_screen_capture_fails[OF this] obtain w'
    where es: "explore_screen env 0 k (?init, wa) = Inr (?init, w')"
    by blast
  obtain t1 wb where t1: "time_time env w' = (t1, wb)"
    by (cases "time_time env w'")
  obtain files w1 where gen: "generate_test_files env ?init wb = (files, w1)"
    by (cases "generate_test_files env ?init wb")
  have run: "run_exploration env k (?init, w0) = Inr (files, ?init, w1)"
    by (simp add: run_exploration_def t0 es t1 gen)
  from gen obtain generated where
    "test_file files = test_content (py_format env) ?init generated"
    "total_screens (report_file files) = 0"
    "total_interactions (report_file files) = 0"
    "flows (report_file files) = []"
    "report_visited_elements (report_file files) = {}"
    by (auto simp: generate_test_files_def init_explorer_def split: prod.splits)
  moreover have \<open>test_content (py_format env) ?init generated
      = ''appId: '' @ a @ ''\<newline>---\<newline># Auto-generated UI Exploration Tests\<newline># Generated: ''
                 @ generated
                 @ ''\<newline># Total screens explored: 0\<newline># Total interactions discovered: 0\<newline>\<newline>- waitForAnimationToEnd\<newline>- takeScreenshot: "exploration_start"\<newline>\<newline>''\<close>
    by (simp add: test_content_def test_header_def init_explorer_def flows_by_screen_Nil py_str_nat_0)
  ultimately show \<open>\<exists>files w1 generated.
           run_exploration env k (init_explorer a p dir, w0)
             = Inr (files, init_explorer a p dir, w1)
           \<and> screen_states (init_explorer a p dir) = []
           \<and> discovered_flows (init_explorer a p dir) = []
           \<and> visited_elements (init_explorer a p dir) = {}
           \<and> test_file files
               = ''appId: '' @ a @ ''\<newline>---\<newline># Auto-generated UI Exploration Tests\<newline># Generated: ''
                 @ generated
                 @ ''\<newline># Total screens explored: 0\<newline># Total interactions discovered: 0\<newline>\<newline>- waitForAnimationToEnd\<newline>- takeScreenshot: "exploration_start"\<newline>\<newline>''
           \<and> total_screens (report_file files) = 0
           \<and> total_interactions (report_file files) = 0
           \<and> flows (report_file files) = []
           \<and> report_visited_elements (report_file files) = {}\<close>
    using run
    by (intro exI[of _ files] exI[of _ w1] exI[of _ generated]) (simp add: init_explorer_def)
qed

text \<open>
  C9, witness: a device whose hierarchy command prints only a banner, which
  \<^verbatim>\<open>json.loads\<close> cannot decode.
\<close>

theorem capture_failure_stops_quietly_witness:
  "capture_fails (sample_env (Completed 0 ''Running on emulator'') (\<lambda>s. None) (\<lambda>c. True)) (0::nat)
   \<and> capture_fails (sample_env (Completed 0 ''Running on emulator'') (\<lambda>s. None) (\<lambda>c. True))
        (snd (time_time (sample_env (Completed 0 ''Running on emulator'') (\<lambda>s. None) (\<lambda>c. True)) 0))
   \<and> (\<exists>w'. explore_screen (sample_env (Completed 0 ''Running on emulator'') (\<lambda>s. None) (\<lambda>c. True)) 0 3
               (init_explorer ''com.whisker.android'' ''android'' ''shots'', 0)
             = Inr (init_explorer ''com.whisker.android'' ''android'' ''shots'', w'))
   \<and> (\<exists>files w1.
         run_exploration (sample_env (Completed 0 ''Running on emulator'') (\<lambda>s. None) (\<lambda>c. True)) 3
               (init_explorer ''com.whisker.android'' ''android'' ''shots'', 0)
           = Inr (files, init_explorer ''com.whisker.android'' ''android'' ''shots'', w1)
         \<and> total_screens (report_file files) = 0
         \<and> total_interactions (report_file files) = 0)"
proof -
  let ?env = "sample_env (Completed 0 ''Running on emulator'') (\<lambda>s. None) (\<lambda>c. True)"
  have fails: "capture_fails ?env w" for w
    by (simp add: capture_fails_def sample_env_def)
  note quiet = capture_failure_stops_quietly
     [where env = ?env and k = 3 and a = "''com.whisker.android''" and p = "''android''"
        and dir = "''shots''" and ?w0.0 = 0 and w = 0 and d = 0
        and self = "init_explorer ''com.whisker.android'' ''android'' ''shots''"]
  from quiet[THEN conjunct1, rule_format, OF fails]
  have one: "\<exists>w'. explore_screen ?env 0 3
               (init_explorer ''com.whisker.android'' ''android'' ''shots'', 0)
             = Inr (init_explorer ''com.whisker.android'' ''android'' ''shots'', w')" .
  from quiet[THEN conjunct2, rule_format, OF fails]
  have two: "\<exists>files w1.
         run_exploration ?env 3 (init_explorer ''com.whisker.android'' ''android'' ''shots'', 0)
           = Inr (files, init_explorer ''com.whisker.android'' ''android'' ''shots'', w1)
         \<and> total_screens (report_file files) = 0
         \<and> total_interactions (report_file files) = 0"
    by blast
  from fails one two show ?thesis by blast
qed

section \<open>The element with no descriptor at all (C10)\<close>

lemma explore_screen_flows_tappable:
  assumes run: "explore_screen env d k (self, w) = Inr (self', w')"
      and old: "\<forall>f\<in>set (discovered_flows self). yaml_cmd (py_format env) (flow_element f) \<noteq> None"
  shows "\<forall>f\<in>set (discovered_flows self'). yaml_cmd (py_format env) (flow_element f) \<noteq> None"
proof -
  let ?I = "\<lambda>(c::int) s. \<forall>f\<in>set (discovered_flows s). yaml_cmd (py_format env) (flow_element f) \<noteq> None"
  have "?I d (fst (self', w'))"
  proof (rule explore_invariant(1)[where I = ?I and ?d0.0 = d and env = env, OF _ _ _ run])
    fix c h s w sn cl s' w'
    assume "?I c s" "capture_screen env c h (s, w) = Inr (sn, cl, s', w')"
    then show "?I c s'"
      by (auto dest!: capture_screen_result)
  next
    fix c sn e s w b s' w'
    assume inv: "?I c s" and te: "try_element env c sn e (s, w) = (b, s', w')"
    from try_element_result[OF te] tap_element_needs_cmd[of env _ e w] inv
    show "?I (if b then c + 1 else c) s'"
      by (cases b) auto
  qed (use old in simp_all)
  then show ?thesis by simp
qed

text \<open>
  C10: for an element all of whose descriptors are empty, the identifier is \<open>bounds:\<close>,
  no tap command is built, \<open>tap_element\<close> reports failure and leaves the world as it
  was (the backend is not called), and the loop's attempt still puts the element's
  identifier into the Frontier while recording no flow. The parser gives every such
  element the identifier \<open>bounds:\<close> and returns none of them once \<open>bounds:\<close> is in the
  Frontier; the Frontier never shrinks; and no flow record of a run holds such an element.
\<close>

theorem all_empty_element_is_marked_but_never_tapped:
  "(all_empty e \<longrightarrow>
      create_identifier fmt e = Inr ''bounds:''
      \<and> yaml_cmd fmt e = None
      \<and> tap_element env self e w = (False, w)
      \<and> try_element env d sn e (self, w)
          = (False,
             self\<lparr> visited_elements := insert (e_identifier e) (visited_elements self),
                   events := events self @ [Tap d (e_identifier e) False] \<rparr>,
             w))
   \<and> (find_clickable_elements fmt V h = Inr els \<longrightarrow>
        (\<forall>x\<in>set els. all_empty x \<longrightarrow> e_identifier x = ''bounds:'')
        \<and> (''bounds:'' \<in> V \<longrightarrow> (\<forall>x\<in>set els. \<not> all_empty x)))
   \<and> (explore_screen env d k (self, w) = Inr (self', w') \<longrightarrow>
        visited_elements self \<subseteq> visited_elements self')
   \<and> (run_exploration env k (init_explorer a p dir, w0) = Inr (files, final, w1) \<longrightarrow>
        (\<forall>f\<in>set (discovered_flows final). \<not> all_empty (flow_element f)))"
proof -
  have one: "create_identifier fmt e = Inr ''bounds:''
      \<and> yaml_cmd fmt e = None
      \<and> tap_element env self e w = (False, w)
      \<and> try_element env d sn e (self, w)
          = (False,
             self\<lparr> visited_elements := insert (e_identifier e) (visited_elements self),
                   events := events self @ [Tap d (e_identifier e) False] \<rparr>,
             w)" if "all_empty e"
  proof -
    from that have cmd: "yaml_cmd g e = None" for g by (rule all_empty_yaml_cmd)
    then have tap: "tap_element env s e w = (False, w)" for s
      by (simp add: tap_element_def)
    from that cmd tap show ?thesis
      by (simp add: all_empty_identifier try_element_def Let_def)
  qed
  have two: "(\<forall>x\<in>set els. all_empty x \<longrightarrow> e_identifier x = ''bounds:'')
        \<and> (''bounds:'' \<in> V \<longrightarrow> (\<forall>x\<in>set els. \<not> all_empty x))"
    if "find_clickable_elements fmt V h = Inr els"
  proof -
    from find_clickable_elements_interactable[OF that]
    have els: "els = filter (\<lambda>e. e_identifier e \<notin> V) (interactable fmt h)" .
    have "e_identifier x = ''bounds:''" if "x \<in> set els" "all_empty x" for x
      using that els all_empty_node_element[of fmt] by (auto simp: interactable_def)
    moreover from this els have "\<not> all_empty x" if "''bounds:'' \<in> V" "x \<in> set els" for x
      using that by auto
    ultimately show ?thesis by blast
  qed
  have three: "visited_elements self \<subseteq> visited_elements self'"
    if "explore_screen env d k (self, w) = Inr (self', w')"
    using explore_screen_once[OF that] by auto
  have four: "\<forall>f\<in>set (discovered_flows final). \<not> all_empty (flow_element f)"
    if "run_exploration env k (init_explorer a p dir, w0) = Inr (files, final, w1)"
  proof -
    from that obtain w w' where "explore_screen env 0 k (init_explorer a p dir, w) = Inr (final, w')"
      by (auto simp: run_exploration_def split: prod.splits sum.splits)
    from explore_screen_flows_tappable[OF this]
    have "\<forall>f\<in>set (discovered_flows final). yaml_cmd (py_format env) (flow_element f) \<noteq> None"
      by (simp add: init_explorer_def)
    then show ?thesis using all_empty_yaml_cmd by blast
  qed
  from one two three four show ?thesis by blast
qed

text \<open>
  C10, witness: a screen with one button without any descriptor and one with the text
  \<open>A\<close>. Both are attempted, \<open>bounds:\<close> ends up in the Frontier, one flow is recorded.
\<close>

theorem all_empty_element_is_marked_but_never_tapped_witness:
  "all_empty \<lparr> e_text = JStr [], e_accessibilityText = JStr [], e_resource_id = JStr [],
               e_bounds = JStr [], e_class = JStr ''Button'', e_path = ''/child[0]'',
               e_identifier = ''bounds:'' \<rparr>
   \<and> tap_element (sample_device (screen_of [button [] [] [] [], button ''A'' [] [] []]) (\<lambda>c. True))
        (init_explorer ''com.whisker.android'' ''android'' ''shots'')
        \<lparr> e_text = JStr [], e_accessibilityText = JStr [], e_resource_id = JStr [],
               e_bounds = JStr [], e_class = JStr ''Button'', e_path = ''/child[0]'',
               e_identifier = ''bounds:'' \<rparr> 0
       = (False, 0)
   \<and> (\<exists>files final w1.
         sample_run (screen_of [button [] [] [] [], button ''A'' [] [] []]) (\<lambda>c. True) 0
           = Inr (files, final, w1)
         \<and> tapped (events final) = [''bounds:'', ''text:A'']
         \<and> map action (discovered_flows final) = [''text:A'']
         \<and> ''bounds:'' \<in> visited_elements final
         \<and> list_all (\<lambda>f. \<not> all_empty (flow_element f)) (discovered_flows final))"
proof -
  let ?e = "\<lparr> e_text = JStr [], e_accessibilityText = JStr [], e_resource_id = JStr [],
               e_bounds = JStr [], e_class = JStr ''Button'', e_path = ''/child[0]'',
               e_identifier = ''bounds:'' \<rparr>"
  let ?snapshot = "screen_of [button [] [] [] [], button ''A'' [] [] []]"
  let ?run = "sample_run ?snapshot (\<lambda>c. True) 0"
  note marked = all_empty_element_is_marked_but_never_tapped
     [where env = "sample_device ?snapshot (\<lambda>c. True)" and k = 0]
  have empty: "all_empty ?e" by (simp add: all_empty_def)
  from marked[where e = ?e, THEN conjunct1, rule_format, OF empty]
  have tap: "tap_element (sample_device ?snapshot (\<lambda>c. True))
        (init_explorer ''com.whisker.android'' ''android'' ''shots'') ?e 0 = (False, 0)"
    by blast
  have "case ?run of
          Inl err \<Rightarrow> False
        | Inr (files, final, w1) \<Rightarrow>
            tapped (events final) = [''bounds:'', ''text:A'']
            \<and> map action (discovered_flows final) = [''text:A'']
            \<and> ''bounds:'' \<in> visited_elements final"
    by code_simp
  then obtain files final w1 where run: "?run = Inr (files, final, w1)"
    and facts: "tapped (events final) = [''bounds:'', ''text:A'']"
       "map action (discovered_flows final) = [''text:A'']"
       "''bounds:'' \<in> visited_elements final"
    by (auto split: sum.splits)
  from marked[THEN conjunct2, THEN conjunct2, THEN conjunct2, rule_format,
           OF run[unfolded sample_run_def]]
  have none: "list_all (\<lambda>f. \<not> all_empty (flow_element f)) (discovered_flows final)"
    by (simp add: list_all_iff)
  have "\<exists>files final w1. ?run = Inr (files, final, w1)
         \<and> tapped (events final) = [''bounds:'', ''text:A'']
         \<and> map action (discovered_flows final) = [''text:A'']
         \<and> ''bounds:'' \<in> visited_elements final
         \<and> list_all (\<lambda>f. \<not> all_empty (flow_element f)) (discovered_flows final)"
    by (rule exI[of _ files], rule exI[of _ final], rule exI[of _ w1])
       (use run facts none in simp)
  with empty tap show ?thesis by blast
qed

section \<open>An activation that fails (C4)\<close>




section \<open>The elements of a screen state (C8)\<close>

lemma explore_screen_states_parsed:
  assumes run: "explore_screen env d k (self, w) = Inr (self', w')"
      and old: "\<forall>ss\<in>set (screen_states self). \<exists>h V. V \<subseteq> visited_elements self
                  \<and> elements ss = filter (\<lambda>e. e_identifier e \<notin> V) (interactable (py_format env) h)"
  shows "\<forall>ss\<in>set (screen_states self'). \<exists>h V. V \<subseteq> visited_elements self'
                  \<and> elements ss = filter (\<lambda>e. e_identifier e \<notin> V) (interactable (py_format env) h)"
proof -
  let ?I = "\<lambda>(c::int) s. \<forall>ss\<in>set (screen_states s). \<exists>h V. V \<subseteq> visited_elements s
                  \<and> elements ss = filter (\<lambda>e. e_identifier e \<notin> V) (interactable (py_format env) h)"
  have "?I d (fst (self', w'))"
  proof (rule explore_invariant(1)[where I = ?I and ?d0.0 = d and env = env, OF _ _ _ run])
    fix c h s w sn cl s' w'
    assume inv: "?I c s" and cs: "capture_screen env c h (s, w) = Inr (sn, cl, s', w')"
    from capture_screen_result[OF cs] obtain ts where
      fc: "find_clickable_elements (py_format env) (visited_elements s) h = Inr cl"
      and s': "s' = s\<lparr> screen_states := screen_states s
                         @ [\<lparr> depth = c, timestamp = ts, screenshot = sn, elements = cl \<rparr>] \<rparr>"
      by blast
    from find_clickable_elements_interactable[OF fc]
    have "cl = filter (\<lambda>e. e_identifier e \<notin> visited_elements s) (interactable (py_format env) h)" .
    with inv s' show "?I c s'" by auto
  next
    fix c sn e s w b s' w'
    assume inv: "?I c s" and te: "try_element env c sn e (s, w) = (b, s', w')"
    from try_element_result[OF te]
    have same: "screen_states s' = screen_states s"
      and grows: "visited_elements s \<subseteq> visited_elements s'"
      by auto
    show "?I (if b then c + 1 else c) s'"
    proof
      fix ss
      assume "ss \<in> set (screen_states s')"
      with same inv obtain h V where V: "V \<subseteq> visited_elements s"
        and ss: "elements ss = filter (\<lambda>e. e_identifier e \<notin> V) (interactable (py_format env) h)"
        by auto
      from V grows have "V \<subseteq> visited_elements s'" by (rule subset_trans)
      with ss show "\<exists>h V. V \<subseteq> visited_elements s'
          \<and> elements ss = filter (\<lambda>e. e_identifier e \<notin> V) (interactable (py_format env) h)"
        by blast
    qed
  qed (use old in simp_all)
  then show ?thesis by simp
qed

text \<open>
  C8, as stated, fails: the parser leaves out every clickable node whose identifier is
  already in the Frontier. On a device that shows the button \<open>A\<close> on every screen, the
  screen state taken at depth 1, after \<open>A\<close> was tapped, lists no element, although the
  snapshot it was taken from has one clickable node.
\<close>

theorem screen_state_omits_visited_counterexample:
  "map_sum id (\<lambda>r. map (map e_identifier \<circ> elements) (screen_states (fst (snd r))))
      (sample_run (screen_of [button ''A'' [] [] []]) (\<lambda>c. True) 1)
     = Inr [[''text:A''], []]
   \<and> map e_identifier (interactable (\<lambda>v. ''?'') (screen_of [button ''A'' [] [] []])) = [''text:A'']"
  by code_simp

text \<open>
  C8, amended: the parser returns the clickable nodes of the snapshot in pre-order, as
  elements, without those whose identifier is in the Frontier; the screen state stored
  for a snapshot lists exactly these, for the Frontier at the time of capture; and every
  screen state of a run lists the clickable nodes of some snapshot, in pre-order, without
  those whose identifier is in some part of the final Frontier.
\<close>

theorem screen_state_lists_unvisited_clickables:
  "(find_clickable_elements fmt V h = Inr els \<longrightarrow>
      els = filter (\<lambda>e. e_identifier e \<notin> V) (interactable fmt h))
   \<and> (capture_screen env d h (self, w) = Inr (sn, cl, self', w') \<longrightarrow>
        (\<exists>ts. screen_states self'
               = screen_states self
                 @ [\<lparr> depth = d, timestamp = ts, screenshot = sn,
                      elements = filter (\<lambda>e. e_identifier e \<notin> visited_elements self)
                                   (interactable (py_format env) h) \<rparr>]))
   \<and> (run_exploration env k (init_explorer a p dir, w0) = Inr (files, final, w1) \<longrightarrow>
        (\<forall>ss\<in>set (screen_states final). \<exists>h V. V \<subseteq> visited_elements final
            \<and> elements ss = filter (\<lambda>e. e_identifier e \<notin> V) (interactable (py_format env) h)))"
proof (intro conjI impI)
  assume "find_clickable_elements fmt V h = Inr els"
  then show "els = filter (\<lambda>e. e_identifier e \<notin> V) (interactable fmt h)"
    by (rule find_clickable_elements_interactable)
next
  assume cs: "capture_screen env d h (self, w) = Inr (sn, cl, self', w')"
  from capture_screen_result[OF cs] obtain ts where
    fc: "find_clickable_elements (py_format env) (visited_elements self) h = Inr cl"
    and s': "self' = self\<lparr> screen_states := screen_states self
                       @ [\<lparr> depth = d, timestamp = ts, screenshot = sn, elements = cl \<rparr>] \<rparr>"
    by blast
  from find_clickable_elements_interactable[OF fc]
  have cl: "cl = filter (\<lambda>e. e_identifier e \<notin> visited_elements self)
                   (interactable (py_format env) h)" .
  show "\<exists>ts. screen_states self'
               = screen_states self
                 @ [\<lparr> depth = d, timestamp = ts, screenshot = sn,
                      elements = filter (\<lambda>e. e_identifier e \<notin> visited_elements self)
                                   (interactable (py_format env) h) \<rparr>]"
    by (rule exI[of _ ts]) (simp add: s' cl[symmetric])
next
  assume "run_exploration env k (init_explorer a p dir, w0) = Inr (files, final, w1)"
  then obtain w w' where es: "explore_screen env 0 k (init_explorer a p dir, w) = Inr (final, w')"
    by (auto simp: run_exploration_def split: prod.splits sum.splits)
  have "screen_states (init_explorer a p dir) = []"
    by (simp add: init_explorer_def)
  then have "\<forall>ss\<in>set (screen_states (init_explorer a p dir)).
           \<exists>h V. V \<subseteq> visited_elements (init_explorer a p dir)
            \<and> elements ss = filter (\<lambda>e. e_identifier e \<notin> V) (interactable (py_format env) h)"
    by simp
  from explore_screen_states_parsed[OF es this]
  show "\<forall>ss\<in>set (screen_states final). \<exists>h V. V \<subseteq> visited_elements final
            \<and> elements ss = filter (\<lambda>e. e_identifier e \<notin> V) (interactable (py_format env) h)" .
qed

text \<open>
  C8, witness: a snapshot with the buttons \<open>A\<close> and \<open>B\<close>, parsed when \<open>text:A\<close> is in the
  Frontier.
\<close>

theorem screen_state_lists_unvisited_clickables_witness:
  "find_clickable_elements (\<lambda>v. ''?'') {''text:A''}
      (screen_of [button ''A'' [] [] [], button ''B'' [] [] []])
     = Inr [\<lparr> e_text = JStr ''B'', e_accessibilityText = JStr [], e_resource_id = JStr [],
              e_bounds = JStr [], e_class = JStr ''Button'', e_path = ''/child[1]'',
              e_identifier = ''text:B'' \<rparr>]
   \<and> filter (\<lambda>e. e_identifier e \<notin> {''text:A''})
        (interactable (\<lambda>v. ''?'') (screen_of [button ''A'' [] [] [], button ''B'' [] [] []]))
     = [\<lparr> e_text = JStr ''B'', e_accessibilityText = JStr [], e_resource_id = JStr [],
              e_bounds = JStr [], e_class = JStr ''Button'', e_path = ''/child[1]'',
              e_identifier = ''text:B'' \<rparr>]"
proof -
  have parsed: "find_clickable_elements (\<lambda>v. ''?'') {''text:A''}
      (screen_of [button ''A'' [] [] [], button ''B'' [] [] []])
     = Inr [\<lparr> e_text = JStr ''B'', e_accessibilityText = JStr [], e_resource_id = JStr [],
              e_bounds = JStr [], e_class = JStr ''Button'', e_path = ''/child[1]'',
              e_identifier = ''text:B'' \<rparr>]"
    by code_simp
  from screen_state_lists_unvisited_clickables[THEN conjunct1, rule_format, OF parsed]
  have "filter (\<lambda>e. e_identifier e \<notin> {''text:A''})
        (interactable (\<lambda>v. ''?'') (screen_of [button ''A'' [] [] [], button ''B'' [] [] []]))
     = [\<lparr> e_text = JStr ''B'', e_accessibilityText = JStr [], e_resource_id = JStr [],
              e_bounds = JStr [], e_class = JStr ''Button'', e_path = ''/child[1]'',
              e_identifier = ''text:B'' \<rparr>]"
    by (rule sym)
  with parsed show ?thesis by (rule conjI)
qed

end
